theory Spec2Isabelle
  imports Complex_Main "HOL-Library.AList"
begin

section \<open>Errors of the training script\<close>

text \<open>
  Every exception that the modelled code can raise is a value. \<open>ZeroDivisionError\<close> is
  what Python raises for \<open>a % 0\<close> and for \<open>x / 0\<close>; the other two are the failures the
  specification names for the patch codec and for resuming without a checkpoint.
\<close>

datatype py_error = ZeroDivisionError | ShapeError | CheckpointNotFoundError

section \<open>Python floats\<close>

text \<open>
  The losses that enter the windows are Python floats (the result of \<open>.item()\<close>), that
  is IEEE 754 binary64 values: a finite number, an infinity or a NaN. A finite float is
  represented by the real number it denotes; the sign of a zero is not represented
  (\<open>-0.0 == 0.0\<close> in Python, and no operation below tells the two apart).
\<close>

datatype py_float = Finite real | PosInf | NegInf | NaN

text \<open>
  Rounding of a real number to binary64, to nearest with ties to even. The representable
  numbers around \<open>x\<close> are the integer multiples of the quantum \<open>2 ^ (e - 52)\<close>, where
  \<open>e\<close> is the binary exponent of \<open>x\<close>, at least \<open>-1022\<close> (below that the numbers are
  subnormal and the quantum stays \<open>2 ^ -1074\<close>). A result of magnitude \<open>2 ^ 1024\<close> or
  more overflows to an infinity.
\<close>

definition float_exponent :: "real \<Rightarrow> int" where
  "float_exponent x = max \<lfloor>log 2 \<bar>x\<bar>\<rfloor> (- 1022)"

definition round_half_even :: "real \<Rightarrow> int" where
  "round_half_even y =
     (let f = \<lfloor>y\<rfloor>; d = y - of_int f
      in if d < 1 / 2 then f else if 1 / 2 < d then f + 1 else if even f then f else f + 1)"

definition round64 :: "real \<Rightarrow> py_float" where
  "round64 x =
     (if x = 0 then Finite 0
      else let q = 2 powi (float_exponent x - 52);
               r = of_int (round_half_even (x / q)) * q
           in if 2 powi 1024 \<le> \<bar>r\<bar> then (if 0 < x then PosInf else NegInf) else Finite r)"

text \<open>Float addition \<open>x + y\<close>: the exact sum, rounded; the IEEE rules for infinities and NaN.\<close>

fun float_add :: "py_float \<Rightarrow> py_float \<Rightarrow> py_float" where
  "float_add (Finite x) (Finite y) = round64 (x + y)"
| "float_add NaN y = NaN"
| "float_add x NaN = NaN"
| "float_add PosInf NegInf = NaN"
| "float_add NegInf PosInf = NaN"
| "float_add PosInf y = PosInf"
| "float_add x PosInf = PosInf"
| "float_add NegInf y = NegInf"
| "float_add x NegInf = NegInf"

text \<open>
  Float division \<open>x / n\<close> by a positive integer \<open>n\<close>, as in \<open>sum(w) / len(w)\<close>: the
  integer is converted to a float (exactly, a list length being far below \<open>2 ^ 53\<close>) and
  the exact quotient is rounded.
\<close>

fun float_div_nat :: "py_float \<Rightarrow> nat \<Rightarrow> py_float" where
  "float_div_nat (Finite x) n = round64 (x / real n)"
| "float_div_nat PosInf n = PosInf"
| "float_div_nat NegInf n = NegInf"
| "float_div_nat NaN n = NaN"

section \<open>Moving-average loss windows (train.py, lines 56, 162--163 and 202--212)\<close>

text \<open>The two windows are Python lists of floats.\<close>

definition N_loss_window :: nat where
  "N_loss_window = 100"

text \<open>\<open>w.append(v)\<close> followed by \<open>if len(w) > N_loss_window: w.pop(0)\<close>.\<close>

definition record_loss :: "py_float list \<Rightarrow> py_float \<Rightarrow> py_float list" where
  "record_loss w v =
     (let w1 = w @ [v] in if length w1 > N_loss_window then tl w1 else w1)"

text \<open>
  Python's \<open>sum\<close> adds from the left, starting at the integer \<open>0\<close>, which the first
  addition converts to the float \<open>0.0\<close>; every addition rounds. This is the loop of
  CPython up to version 3.11; later versions carry a correction term along, which
  changes how the sum is rounded, not which values are added.
\<close>

definition py_sum :: "py_float list \<Rightarrow> py_float" where
  "py_sum w = foldl float_add (Finite 0) w"

text \<open>\<open>sum(w) / len(w)\<close>; the division raises on an empty window and rounds otherwise.\<close>

definition moving_average :: "py_float list \<Rightarrow> py_error + py_float" where
  "moving_average w =
     (if length w = 0 then Inl ZeroDivisionError
      else Inr (float_div_nat (py_sum w) (length w)))"

text \<open>The window after recording the values \<open>vs\<close> one by one, oldest first.\<close>

definition record_all :: "py_float list \<Rightarrow> py_float list \<Rightarrow> py_float list" where
  "record_all w vs = foldl record_loss w vs"

text \<open>
  Lines 202--212 as one operation on both windows: record the two loss components,
  then read both averages.
\<close>

record loss_windows =
  text_loss_window :: "py_float list"
  diffusion_loss_window :: "py_float list"

definition update_loss_windows ::
  "loss_windows \<Rightarrow> py_float \<Rightarrow> py_float \<Rightarrow>
     py_error + (loss_windows \<times> py_float \<times> py_float)" where
  "update_loss_windows ws text_loss diffusion_loss =
     (let tw = record_loss (text_loss_window ws) text_loss;
          dw = record_loss (diffusion_loss_window ws) diffusion_loss
      in case moving_average tw of
           Inl e \<Rightarrow> Inl e
         | Inr avg_text_loss \<Rightarrow>
             (case moving_average dw of
                Inl e \<Rightarrow> Inl e
              | Inr avg_diffusion_loss \<Rightarrow>
                  Inr (\<lparr>text_loss_window = tw, diffusion_loss_window = dw\<rparr>,
                       avg_text_loss, avg_diffusion_loss)))"

section \<open>Latent cache build (train.py, lines 101--114)\<close>

text \<open>
  A raw batch of the data loader carries the token ids and the pixel values; the shard
  written to disk carries the token ids and the encoded latents (the raw pixels are
  deleted from the batch before it is saved). Their contents are opaque here.
\<close>

record ('i, 'p) batch =
  input_ids :: 'i
  pixel_values :: 'p

record ('i, 'l) shard =
  shard_input_ids :: 'i
  image_latents :: 'l

text \<open>
  The cache directory: \<open>None\<close> when the path does not exist, otherwise its files by
  name, each with the shard that \<open>torch.save\<close> stored in it.
\<close>

type_synonym ('i, 'l) directory = "(string \<times> ('i, 'l) shard) list option"

text \<open>Decimal rendering of integers, as an f-string prints them.\<close>

fun str_nat :: "nat \<Rightarrow> string" where
  "str_nat n =
     (if n < 10 then [''0123456789'' ! n]
      else str_nat (n div 10) @ [''0123456789'' ! (n mod 10)])"

declare str_nat.simps [simp del]

definition str_int :: "int \<Rightarrow> string" where
  "str_int i = (if i < 0 then ''-'' @ str_nat (nat (- i)) else str_nat (nat i))"

text \<open>The file name \<open>f'batch_{batch_size}_{i}.pt'\<close> inside the cache directory.\<close>

definition cache_file :: "int \<Rightarrow> nat \<Rightarrow> string" where
  "cache_file batch_size i = ''batch_'' @ str_int batch_size @ ''_'' @ str_nat i @ ''.pt''"

text \<open>\<open>os.makedirs(cache_dir, exist_ok=True)\<close>.\<close>

definition makedirs :: "('i, 'l) directory \<Rightarrow> ('i, 'l) directory" where
  "makedirs d = (case d of None \<Rightarrow> Some [] | Some files \<Rightarrow> Some files)"

definition path_exists :: "('i, 'l) directory \<Rightarrow> bool" where
  "path_exists d = (d \<noteq> None)"

text \<open>\<open>os.listdir\<close> raises on a missing directory; the model has no branch that reaches it.\<close>

definition listdir :: "('i, 'l) directory \<Rightarrow> string list" where
  "listdir d = (case d of None \<Rightarrow> [] | Some files \<Rightarrow> map fst files)"

text \<open>\<open>torch.save(batch, cache_file)\<close> creates the file or overwrites it.\<close>

definition torch_save ::
  "string \<Rightarrow> ('i, 'l) shard \<Rightarrow> (string \<times> ('i, 'l) shard) list \<Rightarrow> (string \<times> ('i, 'l) shard) list" where
  "torch_save name content files = AList.update name content files"

text \<open>
  The caching loop of lines 107--112 over the batches of the unshuffled loader, from
  index \<open>i\<close> on. The encoder \<open>vae_encode_batch\<close> is external and is a parameter; the
  second component counts its invocations.
\<close>

fun cache_batches ::
  "('p \<Rightarrow> 'l) \<Rightarrow> int \<Rightarrow> nat \<Rightarrow> ('i, 'p) batch list \<Rightarrow>
     (string \<times> ('i, 'l) shard) list \<times> nat \<Rightarrow> (string \<times> ('i, 'l) shard) list \<times> nat" where
  "cache_batches vae_encode_batch batch_size i [] st = st"
| "cache_batches vae_encode_batch batch_size i (b # rest) (files, calls) =
     cache_batches vae_encode_batch batch_size (Suc i) rest
       (torch_save (cache_file batch_size i)
          \<lparr>shard_input_ids = input_ids b,
           image_latents = vae_encode_batch (pixel_values b)\<rparr> files,
        Suc calls)"

text \<open>
  Lines 102--114. The flag \<open>cache\<close> is \<open>args.cache\<close>. The result is the directory
  afterwards and the number of encoder invocations made.
\<close>

definition build_cache ::
  "bool \<Rightarrow> ('p \<Rightarrow> 'l) \<Rightarrow> int \<Rightarrow> ('i, 'p) batch list \<Rightarrow> ('i, 'l) directory \<Rightarrow>
     ('i, 'l) directory \<times> nat" where
  "build_cache cache vae_encode_batch batch_size batches d0 =
     (let d = makedirs d0 in
      if cache \<or> \<not> path_exists d \<or> length (listdir d) = 0
      then (case cache_batches vae_encode_batch batch_size 0 batches
                   (case d of None \<Rightarrow> [] | Some files \<Rightarrow> files, 0) of
              (files, calls) \<Rightarrow> (Some files, calls))
      else (d, 0))"

text \<open>
  The shard files a complete cache holds for \<open>n\<close> batches at the configured batch size,
  and what it means for a directory to hold all of them or none of them. These two
  notions state the specification's invariant; the script itself never computes them.
\<close>

definition expected_shards :: "int \<Rightarrow> nat \<Rightarrow> string list" where
  "expected_shards batch_size n = map (cache_file batch_size) [0..<n]"

definition cache_complete :: "int \<Rightarrow> nat \<Rightarrow> ('i, 'l) directory \<Rightarrow> bool" where
  "cache_complete batch_size n d =
     list_all (\<lambda>name. name \<in> set (listdir d)) (expected_shards batch_size n)"

definition cache_empty :: "('i, 'l) directory \<Rightarrow> bool" where
  "cache_empty d = (listdir d = [])"

section \<open>Command-line arguments (train.py, lines 19--35 and 52--55)\<close>

text \<open>
  Only the arguments that steer the control flow of the loop are kept. The three
  cadences are Python integers: \<open>argparse\<close> accepts zero and negative values as well.
\<close>

record args =
  resume :: bool
  debug_steps :: int
  inference_steps :: int
  save_steps :: int

definition default_args :: args where
  "default_args =
     \<lparr>resume = False, debug_steps = 20, inference_steps = 200, save_steps = 200\<rparr>"

definition num_epochs :: int where
  "num_epochs = 10"

section \<open>Timestep sampling (train.py, lines 186--190)\<close>

text \<open>Python's \<open>a % n\<close> on integers: floored, and an exception for \<open>n = 0\<close>.\<close>

definition py_mod :: "int \<Rightarrow> int \<Rightarrow> py_error + int" where
  "py_mod a n = (if n = 0 then Inl ZeroDivisionError else Inr (a mod n))"

text \<open>
  The test of line 188, \<open>step_counter % N_inference == 0 or step_counter % N_debug == 0\<close>,
  evaluated left to right with the short circuit of \<open>or\<close>; \<open>step\<close> is the current value
  of \<open>step_counter\<close>.
\<close>

definition override_due :: "int \<Rightarrow> int \<Rightarrow> int \<Rightarrow> py_error + bool" where
  "override_due step N_inference N_debug =
     (case py_mod step N_inference of
        Inl e \<Rightarrow> Inl e
      | Inr r \<Rightarrow>
          if r = 0 then Inr True
          else (case py_mod step N_debug of
                  Inl e \<Rightarrow> Inl e
                | Inr r' \<Rightarrow> Inr (r' = 0)))"

text \<open>
  Line 189, \<open>timestep = 0.7\<close>: the number that the literal denotes.
\<close>

definition timestep :: real where
  "timestep = 0.7"

text \<open>
  \<open>torch.full((n, 1), v)\<close>: a tensor of \<open>n\<close> elements, each the fill value \<open>v\<close> as the
  dtype of the tensor stores it. The element type of a tensor is left open, and
  \<open>to_dtype\<close> is the conversion of a Python number to it.
\<close>

definition torch_full :: "(real \<Rightarrow> 'a) \<Rightarrow> nat \<Rightarrow> real \<Rightarrow> 'a list" where
  "torch_full to_dtype n v = replicate n (to_dtype v)"

text \<open>
  Lines 186--190. The argument \<open>rand\<close> is the tensor that \<open>torch.rand\<close> returned on line
  186, one value per sample; the tensor of line 190 has the same length.
\<close>

definition sample_times ::
  "(real \<Rightarrow> 'a) \<Rightarrow> 'a list \<Rightarrow> int \<Rightarrow> int \<Rightarrow> int \<Rightarrow> py_error + 'a list" where
  "sample_times to_dtype rand step N_inference N_debug =
     (case override_due step N_inference N_debug of
        Inl e \<Rightarrow> Inl e
      | Inr fixed \<Rightarrow>
          if fixed then Inr (torch_full to_dtype (length rand) timestep) else Inr rand)"

section \<open>The training loop (train.py, lines 130--136 and 162--237)\<close>

text \<open>
  What one completed step did: the epoch and the batch index \<open>i\<close> of
  \<open>enumerate(progress_bar, 1)\<close> it ran in, the value of \<open>step_counter\<close> after the
  increment of line 174, and which of the gated effects fired (the fixed timesteps of
  line 188, the debug render of line 220, the inference barrier of line 228 and the
  \<open>save_checkpoint\<close> call of line 234, which receives this epoch and this counter).
\<close>

record step_log =
  log_epoch :: int
  log_batch :: nat
  log_step :: int
  times_fixed :: bool
  debug_rendered :: bool
  inference_barrier :: bool
  checkpoint_saved :: bool

text \<open>The variables that live across steps.\<close>

record train_state =
  step_counter :: int
  windows :: loss_windows

text \<open>
  One pass through the loop body. The forward and backward pass is external; the two loss
  components it reports at a step are read from the parameter \<open>losses\<close>. An exception
  ends the step without a log entry.
\<close>

definition train_step ::
  "args \<Rightarrow> (int \<Rightarrow> py_float \<times> py_float) \<Rightarrow> int \<Rightarrow> nat \<Rightarrow> train_state \<Rightarrow>
     py_error + (step_log \<times> train_state)" where
  "train_step a losses epoch i st =
     (let sc = step_counter st + 1 in
      case override_due sc (inference_steps a) (debug_steps a) of
        Inl e \<Rightarrow> Inl e
      | Inr fixed \<Rightarrow>
      (case update_loss_windows (windows st) (fst (losses sc)) (snd (losses sc)) of
        Inl e \<Rightarrow> Inl e
      | Inr (ws, avg_text_loss, avg_diffusion_loss) \<Rightarrow>
      (case py_mod sc (debug_steps a) of
        Inl e \<Rightarrow> Inl e
      | Inr rd \<Rightarrow>
      (case py_mod sc (inference_steps a) of
        Inl e \<Rightarrow> Inl e
      | Inr ri \<Rightarrow>
      (case py_mod sc (save_steps a) of
        Inl e \<Rightarrow> Inl e
      | Inr rs \<Rightarrow>
          Inr (\<lparr>log_epoch = epoch, log_batch = i, log_step = sc, times_fixed = fixed,
                debug_rendered = (rd = 0), inference_barrier = (ri = 0),
                checkpoint_saved = (rs = 0)\<rparr>,
               \<lparr>step_counter = sc, windows = ws\<rparr>))))))"

text \<open>
  The inner loop over the batch indices of one epoch, and the outer loop over the
  epochs. Both return the log of the completed steps and either the final state or the
  exception that ended the run.
\<close>

fun run_batches ::
  "args \<Rightarrow> (int \<Rightarrow> py_float \<times> py_float) \<Rightarrow> int \<Rightarrow> nat list \<Rightarrow> train_state \<Rightarrow>
     step_log list \<times> (py_error + train_state)" where
  "run_batches a losses epoch [] st = ([], Inr st)"
| "run_batches a losses epoch (i # rest) st =
     (case train_step a losses epoch i st of
        Inl e \<Rightarrow> ([], Inl e)
      | Inr (lg, st') \<Rightarrow>
          (case run_batches a losses epoch rest st' of
             (lgs, r) \<Rightarrow> (lg # lgs, r)))"

fun run_epochs ::
  "args \<Rightarrow> (int \<Rightarrow> py_float \<times> py_float) \<Rightarrow> nat \<Rightarrow> int list \<Rightarrow> train_state \<Rightarrow>
     step_log list \<times> (py_error + train_state)" where
  "run_epochs a losses n_batches [] st = ([], Inr st)"
| "run_epochs a losses n_batches (epoch # rest) st =
     (case run_batches a losses epoch [1..<Suc n_batches] st of
        (lgs, Inl e) \<Rightarrow> (lgs, Inl e)
      | (lgs, Inr st') \<Rightarrow>
          (case run_epochs a losses n_batches rest st' of
             (lgs', r) \<Rightarrow> (lgs @ lgs', r)))"

text \<open>
  Lines 162--237 from the values that lines 131--136 gave to \<open>start_epoch\<close> and
  \<open>step_counter\<close>; \<open>n_batches\<close> is \<open>len(dataloader)\<close>. The epochs are
  \<open>range(start_epoch, num_epochs)\<close> and both loss windows start empty.
\<close>

definition train_loop ::
  "args \<Rightarrow> (int \<Rightarrow> py_float \<times> py_float) \<Rightarrow> nat \<Rightarrow> int \<Rightarrow> int \<Rightarrow>
     step_log list \<times> (py_error + train_state)" where
  "train_loop a losses n_batches start_epoch step_counter0 =
     run_epochs a losses n_batches [start_epoch..num_epochs - 1]
       \<lparr>step_counter = step_counter0,
        windows = \<lparr>text_loss_window = [], diffusion_loss_window = []\<rparr>\<rparr>"

text \<open>
  Lines 131--136 followed by the loop. \<open>resume_checkpoint\<close> is imported from the module
  \<open>data\<close>; the outcome of its call on line 136 is the parameter \<open>resumed\<close>: an exception,
  or the tuple of model, optimizer, scheduler, start epoch and step counter that it
  returned. A fresh run starts at epoch 0 with the counter at 0, a resumed run at the
  epoch and the counter of that tuple.
\<close>

definition train ::
  "args \<Rightarrow> (int \<Rightarrow> py_float \<times> py_float) \<Rightarrow> nat \<Rightarrow>
     (py_error + ('m \<times> 'o \<times> 's \<times> int \<times> int)) \<Rightarrow>
     step_log list \<times> (py_error + train_state)" where
  "train a losses n_batches resumed =
     (if resume a
      then (case resumed of
              Inl e \<Rightarrow> ([], Inl e)
            | Inr (model, optimizer, scheduler, start_epoch, step_counter0) \<Rightarrow>
                train_loop a losses n_batches start_epoch step_counter0)
      else train_loop a losses n_batches 0 0)"

text \<open>The position of a step: its epoch, its batch index and its counter value.\<close>

definition step_position :: "step_log \<Rightarrow> int \<times> nat \<times> int" where
  "step_position lg = (log_epoch lg, log_batch lg, log_step lg)"

text \<open>
  The gated effects recorded in a log entry agree with the counter value of its step:
  each fired exactly when the counter was a multiple of its cadence.
\<close>

definition log_entry_ok :: "args \<Rightarrow> step_log \<Rightarrow> bool" where
  "log_entry_ok a lg =
     ((times_fixed lg = (log_step lg mod inference_steps a = 0 \<or> log_step lg mod debug_steps a = 0))
      \<and> (debug_rendered lg = (log_step lg mod debug_steps a = 0))
      \<and> (inference_barrier lg = (log_step lg mod inference_steps a = 0))
      \<and> (checkpoint_saved lg = (log_step lg mod save_steps a = 0)))"

section \<open>Checkpoints\<close>

text \<open>
  Modelled from the spec: \<open>save_checkpoint\<close> and \<open>resume_checkpoint\<close> are imported from
  the module \<open>data\<close>, which is not part of the sources at hand. Following the
  specification, a save stores the model parameters, the optimizer state, the scheduler
  state, the last loss, the epoch and the step counter as one record, replacing the
  previous one; a resume returns the stored model, optimizer, scheduler, epoch and step
  counter exactly, and fails when no checkpoint exists. The three kinds of state and
  the loss tensor are opaque.
\<close>

record ('m, 'o, 's, 'l) checkpoint =
  ck_model :: 'm
  ck_optimizer :: 'o
  ck_scheduler :: 's
  ck_loss :: 'l
  ck_epoch :: int
  ck_step_counter :: int

definition save_checkpoint ::
  "'m \<Rightarrow> 'o \<Rightarrow> 's \<Rightarrow> 'l \<Rightarrow> int \<Rightarrow> int \<Rightarrow> ('m, 'o, 's, 'l) checkpoint option \<Rightarrow>
     ('m, 'o, 's, 'l) checkpoint option" where
  "save_checkpoint model optimizer scheduler loss epoch step store =
     Some \<lparr>ck_model = model, ck_optimizer = optimizer, ck_scheduler = scheduler,
           ck_loss = loss, ck_epoch = epoch, ck_step_counter = step\<rparr>"

definition resume_checkpoint ::
  "'m \<Rightarrow> 'o \<Rightarrow> 's \<Rightarrow> ('m, 'o, 's, 'l) checkpoint option \<Rightarrow>
     py_error + ('m \<times> 'o \<times> 's \<times> int \<times> int)" where
  "resume_checkpoint model optimizer scheduler store =
     (case store of
        None \<Rightarrow> Inl CheckpointNotFoundError
      | Some ck \<Rightarrow>
          Inr (ck_model ck, ck_optimizer ck, ck_scheduler ck, ck_epoch ck, ck_step_counter ck))"

section \<open>The patch codec (train.py, lines 180 and 220)\<close>

text \<open>
  Modelled from the spec: \<open>patchify\<close> and \<open>unpatchify\<close> are imported from the module
  \<open>data\<close>, which is not part of the sources at hand; \<open>train.py\<close> only calls them, as
  \<open>patchify(latents, patch_size)\<close> and
  \<open>unpatchify(x, patch_size, bsz, 4, image_size // 8, image_size // 8)\<close>. Following
  the specification, \<open>patchify\<close> takes a tensor of shape \<open>[B, C, H, W]\<close> to one of shape
  \<open>[B, (H/p) * (W/p), C * p * p]\<close> in which row \<open>r\<close> is the patch at patch row
  \<open>r div (W/p)\<close> and patch column \<open>r mod (W/p)\<close>, flattened channel-major: column
  \<open>c * p * p + i * p + j\<close> holds channel \<open>c\<close> of the pixel at row \<open>i\<close> and column
  \<open>j\<close> of the patch. \<open>unpatchify\<close> reads the same layout backwards. Both fail with
  \<open>ShapeError\<close> when \<open>H\<close> or \<open>W\<close> is not divisible by the patch size, \<open>unpatchify\<close>
  also when the shape of its argument is not the one that \<open>patchify\<close> produces for
  \<open>B\<close>, \<open>C\<close>, \<open>H\<close>, \<open>W\<close>. A patch size of 0 divides nothing and is a
  \<open>ShapeError\<close> too.

  A tensor is its shape together with the function from in-range indices to elements;
  the element type is left open.
\<close>

record 'a tensor4 =
  shape4 :: "nat \<times> nat \<times> nat \<times> nat"
  elem4 :: "nat \<Rightarrow> nat \<Rightarrow> nat \<Rightarrow> nat \<Rightarrow> 'a"

record 'a tensor3 =
  shape3 :: "nat \<times> nat \<times> nat"
  elem3 :: "nat \<Rightarrow> nat \<Rightarrow> nat \<Rightarrow> 'a"

definition patchify :: "'a tensor4 \<Rightarrow> nat \<Rightarrow> py_error + 'a tensor3" where
  "patchify x p =
     (case shape4 x of (B, C, H, W) \<Rightarrow>
        if p = 0 \<or> H mod p \<noteq> 0 \<or> W mod p \<noteq> 0 then Inl ShapeError
        else Inr \<lparr>shape3 = (B, (H div p) * (W div p), C * p * p),
                  elem3 = (\<lambda>b r q.
                     elem4 x b (q div (p * p))
                       ((r div (W div p)) * p + (q mod (p * p)) div p)
                       ((r mod (W div p)) * p + q mod p))\<rparr>)"

definition unpatchify ::
  "'a tensor3 \<Rightarrow> nat \<Rightarrow> nat \<Rightarrow> nat \<Rightarrow> nat \<Rightarrow> nat \<Rightarrow> py_error + 'a tensor4" where
  "unpatchify ps p B C H W =
     (if p = 0 \<or> H mod p \<noteq> 0 \<or> W mod p \<noteq> 0
         \<or> shape3 ps \<noteq> (B, (H div p) * (W div p), C * p * p)
      then Inl ShapeError
      else Inr \<lparr>shape4 = (B, C, H, W),
                elem4 = (\<lambda>b c h w.
                   elem3 ps b ((h div p) * (W div p) + w div p)
                     (c * p * p + (h mod p) * p + w mod p))\<rparr>)"

section \<open>Properties of the float operations\<close>

lemma float_exponent_eq:
  assumes "2 powi e \<le> \<bar>x\<bar>" and "\<bar>x\<bar> < 2 powi (e + 1)" and "- 1022 \<le> e"
  shows "float_exponent x = e"
proof -
  have pos: "0 < \<bar>x\<bar>"
    using assms(1) by (smt (verit) zero_less_power_int)
  have a: "of_int e \<le> log 2 \<bar>x\<bar>"
    using assms(1) pos by (simp add: le_log_iff powr_real_of_int')
  have "2 powr (of_int (e + 1)) = (2::real) powi (e + 1)"
    by (rule powr_real_of_int') simp_all
  then have "\<bar>x\<bar> < 2 powr (of_int (e + 1))"
    using assms(2) by simp
  then have "log 2 \<bar>x\<bar> < of_int (e + 1)"
    using pos by (simp add: log_less_iff)
  then have b: "log 2 \<bar>x\<bar> < of_int e + 1" by simp
  have "\<lfloor>log 2 \<bar>x\<bar>\<rfloor> = e"
    using a b by (simp add: floor_eq_iff)
  with assms(3) show ?thesis
    by (simp add: float_exponent_def)
qed







text \<open>
  The sum of the floats 0.1 and 0.2 lies halfway between two floats and is rounded to the
  even one, 0.30000000000000004, as in Python.
\<close>

lemma float_add_tenth_fifth:
  "float_add (Finite (3602879701896397 / 36028797018963968))
             (Finite (3602879701896397 / 18014398509481984)) =
     Finite (1351079888211149 / 4503599627370496)"
proof -
  have x: "(3602879701896397 / 36028797018963968 + 3602879701896397 / 18014398509481984 :: real)
             = 10808639105689191 / 36028797018963968"
    by simp
  have "float_exponent (10808639105689191 / 36028797018963968) = - 2"
    by (rule float_exponent_eq) (simp_all add: power_int_minus)
  then have "round64 (10808639105689191 / 36028797018963968) =
      Finite (1351079888211149 / 4503599627370496)"
    by (simp add: round64_def round_half_even_def Let_def power_int_minus)
  then show ?thesis
    by (simp only: float_add.simps x)
qed

section \<open>Properties of the loss windows\<close>

lemma record_loss_drop:
  assumes "length w \<le> N_loss_window"
  shows "record_loss w v = drop (Suc (length w) - N_loss_window) (w @ [v])"
proof (cases "length w = N_loss_window")
  case True
  then have one: "Suc (length w) - N_loss_window = Suc 0" by simp
  have "drop (Suc 0) (w @ [v]) = tl (w @ [v])"
    by (simp only: drop_Suc drop_0)
  with True one show ?thesis
    by (simp add: record_loss_def del: drop_append)
next
  case False
  with assms have "Suc (length w) - N_loss_window = 0" by simp
  with assms False show ?thesis
    by (simp add: record_loss_def)
qed

lemma record_all_snoc: "record_all w (vs @ [v]) = record_loss (record_all w vs) v"
  by (simp add: record_all_def)

lemma record_all_recent:
  "record_all [] vs = drop (length vs - N_loss_window) vs"
proof (induction vs rule: rev_induct)
  case Nil
  show ?case by (simp add: record_all_def)
next
  case (snoc v vs)
  let ?k = "length vs"
  let ?w = "drop (?k - N_loss_window) vs"
  have len: "length ?w \<le> N_loss_window" by simp
  have "record_all [] (vs @ [v]) = record_loss ?w v"
    by (simp add: record_all_snoc snoc.IH)
  also have "\<dots> = drop (Suc (length ?w) - N_loss_window) (?w @ [v])"
    by (rule record_loss_drop [OF len])
  also have "\<dots> = drop (Suc ?k - N_loss_window) (vs @ [v])"
  proof (cases "?k < N_loss_window")
    case True
    then show ?thesis by simp
  next
    case False
    then have "Suc (length ?w) - N_loss_window = 1"
      and "Suc ?k - N_loss_window = Suc (?k - N_loss_window)" by simp_all
    then show ?thesis by (simp add: drop_Suc tl_drop)
  qed
  finally show ?case by simp
qed

lemma length_record_all: "length (record_all [] vs) = min (length vs) N_loss_window"
  by (simp add: record_all_recent)

lemma record_loss_nonempty: "1 \<le> length (record_loss w v)"
  by (cases w) (simp_all add: record_loss_def Let_def N_loss_window_def)

lemma moving_average_error_iff: "moving_average w = Inl e \<longleftrightarrow> w = [] \<and> e = ZeroDivisionError"
  by (cases w) (auto simp: moving_average_def)

lemma moving_average_record_loss: "moving_average (record_loss w v) \<noteq> Inl e"
  using record_loss_nonempty [of w v]
  by (cases "record_loss w v") (simp_all add: moving_average_def)




text \<open>
  Claim C7. A loss window is a bounded FIFO of capacity \<open>N = 100\<close>: between record
  operations its length never exceeds \<open>N\<close>; a record on a window that is not full appends,
  a record on a full window drops the oldest sample and appends the new one; after \<open>k\<close>
  recordings exactly the most recent \<open>min k N\<close> samples are retained, in order.
\<close>

theorem window_bounded_fifo:
  "length (record_all [] vs) \<le> N_loss_window
   \<and> length (record_all [] vs) = min (length vs) N_loss_window
   \<and> record_all [] vs = drop (length vs - min (length vs) N_loss_window) vs
   \<and> (length w \<le> N_loss_window \<longrightarrow> length (record_loss w v) \<le> N_loss_window)
   \<and> (length w < N_loss_window \<longrightarrow> record_loss w v = w @ [v])
   \<and> (length w = N_loss_window \<longrightarrow> record_loss w v = tl w @ [v])
   \<and> N_loss_window = 100"
proof -
  have a: "length (record_all [] vs) = min (length vs) N_loss_window"
    by (rule length_record_all)
  have b: "record_all [] vs = drop (length vs - min (length vs) N_loss_window) vs"
    by (simp add: record_all_recent min_def)
  have c: "length w \<le> N_loss_window \<longrightarrow> length (record_loss w v) \<le> N_loss_window"
    by (simp add: record_loss_def Let_def)
  have d: "length w < N_loss_window \<longrightarrow> record_loss w v = w @ [v]"
    by (simp add: record_loss_def Let_def)
  have e: "length w = N_loss_window \<longrightarrow> record_loss w v = tl w @ [v]"
  proof
    assume full: "length w = N_loss_window"
    then have "w \<noteq> []" by (auto simp: N_loss_window_def)
    with full show "record_loss w v = tl w @ [v]"
      by (simp add: record_loss_def Let_def)
  qed
  have f: "N_loss_window = 100" by (simp add: N_loss_window_def)
  from a have a': "length (record_all [] vs) \<le> N_loss_window" by simp
  from a' a b c d e f show ?thesis by blast
qed

theorem window_bounded_fifo_witness:
  "length (Finite 1 # replicate 99 (Finite 2)) = N_loss_window
   \<and> record_loss (Finite 1 # replicate 99 (Finite 2)) (Finite 7) =
       replicate 99 (Finite 2) @ [Finite 7]
   \<and> length [Finite 1, Finite 2] < N_loss_window
   \<and> record_loss [Finite 1, Finite 2] (Finite 3) = [Finite 1, Finite 2, Finite 3]
   \<and> length (record_loss [Finite 1, Finite 2] (Finite 3)) \<le> N_loss_window"
proof -
  have full: "length (Finite 1 # replicate 99 (Finite 2)) = N_loss_window"
    and part: "length [Finite 1, Finite 2] < N_loss_window"
    by (simp_all add: N_loss_window_def)
  from full window_bounded_fifo [of "[]" "Finite 1 # replicate 99 (Finite 2)" "Finite 7"]
  have a: "record_loss (Finite 1 # replicate 99 (Finite 2)) (Finite 7) =
       replicate 99 (Finite 2) @ [Finite 7]" by simp
  from part window_bounded_fifo [of "[]" "[Finite 1, Finite 2]" "Finite 3"]
  have b: "record_loss [Finite 1, Finite 2] (Finite 3) = [Finite 1, Finite 2, Finite 3]"
    and c: "length (record_loss [Finite 1, Finite 2] (Finite 3)) \<le> N_loss_window" by simp_all
  from full a part b c show ?thesis by blast
qed

text \<open>
  Claim C9. Reading the average fails (with the division by a zero window length) only
  on a window into which nothing has been recorded. In the step ordering of the
  training loop both components are recorded before either average is read, so each
  window holds at least one value at that point and the update of lines 202--212 never
  raises.
\<close>

theorem average_never_fails_after_record:
  "(moving_average w = Inl ZeroDivisionError \<longleftrightarrow> w = [])
   \<and> (\<forall>e. moving_average w = Inl e \<longrightarrow> w = [])
   \<and> 1 \<le> length (record_loss w v)
   \<and> (\<forall>e. moving_average (record_loss w v) \<noteq> Inl e)
   \<and> (\<forall>e. update_loss_windows ws t d \<noteq> Inl e)
   \<and> (vs \<noteq> [] \<longrightarrow> (\<forall>e. moving_average (record_all [] vs) \<noteq> Inl e))"
proof -
  have upd: "update_loss_windows ws t d \<noteq> Inl e" for e
    using moving_average_record_loss [of "text_loss_window ws" t]
          moving_average_record_loss [of "diffusion_loss_window ws" d]
    by (simp add: update_loss_windows_def Let_def split: sum.splits)
  have all: "vs \<noteq> [] \<longrightarrow> (\<forall>e. moving_average (record_all [] vs) \<noteq> Inl e)"
  proof (intro impI allI)
    fix e assume "vs \<noteq> []"
    then have "0 < length (record_all [] vs)"
      by (simp add: length_record_all N_loss_window_def)
    then show "moving_average (record_all [] vs) \<noteq> Inl e"
      by (simp add: moving_average_error_iff)
  qed
  from upd all record_loss_nonempty [of w v] moving_average_record_loss [of w v]
  show ?thesis
    by (simp add: moving_average_error_iff)
qed

theorem average_never_fails_after_record_witness:
  "moving_average [] = Inl ZeroDivisionError
   \<and> [Finite 5] \<noteq> []
   \<and> (\<forall>e. moving_average (record_all [] [Finite 5]) \<noteq> Inl e)"
proof -
  from average_never_fails_after_record [of "[]"]
  have a: "moving_average [] = Inl ZeroDivisionError" by simp
  have ne: "[Finite 5] \<noteq> []" by simp
  from ne average_never_fails_after_record [of "[]" "Finite 0" _ "Finite 0" "Finite 0" "[Finite 5]"]
  have b: "\<forall>e. moving_average (record_all [] [Finite 5]) \<noteq> Inl e" by blast
  from a ne b show ?thesis by blast
qed

section \<open>Properties of the cache build\<close>

lemma str_nat_nonempty: "str_nat n \<noteq> []"
  by (subst str_nat.simps) simp

lemma digit_inj:
  assumes "a < 10" "b < 10" "''0123456789'' ! a = ''0123456789'' ! b"
  shows "a = b"
proof -
  have "distinct ''0123456789''" by simp
  moreover have "a < length ''0123456789''" "b < length ''0123456789''"
    using assms by simp_all
  ultimately show ?thesis
    using assms(3) nth_eq_iff_index_eq by blast
qed

lemma str_nat_inj: "str_nat n = str_nat m \<Longrightarrow> n = m"
proof (induction n arbitrary: m rule: str_nat.induct)
  case (1 n)
  show ?case
  proof (cases "n < 10")
    case small_n: True
    show ?thesis
    proof (cases "m < 10")
      case True
      with small_n "1.prems" show ?thesis
        by (simp add: str_nat.simps [of n] str_nat.simps [of m] digit_inj)
    next
      case False
      with small_n "1.prems" str_nat_nonempty [of "m div 10"] show ?thesis
        by (simp add: str_nat.simps [of n] str_nat.simps [of m])
    qed
  next
    case big_n: False
    show ?thesis
    proof (cases "m < 10")
      case True
      with big_n "1.prems" str_nat_nonempty [of "n div 10"] show ?thesis
        by (simp add: str_nat.simps [of n] str_nat.simps [of m])
    next
      case False
      with big_n "1.prems"
      have pre: "str_nat (n div 10) = str_nat (m div 10)"
        and dig: "''0123456789'' ! (n mod 10) = ''0123456789'' ! (m mod 10)"
        by (simp_all add: str_nat.simps [of n] str_nat.simps [of m])
      from "1.IH" [OF big_n pre] have "n div 10 = m div 10" .
      moreover from dig have "n mod 10 = m mod 10"
        by (intro digit_inj) simp_all
      ultimately show ?thesis
        by (metis div_mult_mod_eq)
    qed
  qed
qed

lemma cache_file_inj: "cache_file bs i = cache_file bs j \<longleftrightarrow> i = j"
  by (auto simp: cache_file_def dest: str_nat_inj)

lemma cache_batches_calls:
  "snd (cache_batches enc bs i batches (files, calls)) = calls + length batches"
  by (induction batches arbitrary: i files calls) simp_all

lemma cache_batches_other:
  "\<forall>j\<ge>i. name \<noteq> cache_file bs j \<Longrightarrow>
     map_of (fst (cache_batches enc bs i batches (files, calls))) name = map_of files name"
proof (induction batches arbitrary: i files calls)
  case Nil
  show ?case by simp
next
  case (Cons b rest)
  from Cons.prems have later: "\<forall>j\<ge>Suc i. name \<noteq> cache_file bs j" by simp
  from Cons.prems have here: "name \<noteq> cache_file bs i" by simp
  show ?case
    by (simp add: Cons.IH [OF later] torch_save_def update_conv' here)
qed

lemma cache_batches_written:
  "k < length batches \<Longrightarrow>
     map_of (fst (cache_batches enc bs i batches (files, calls))) (cache_file bs (i + k)) =
       Some \<lparr>shard_input_ids = input_ids (batches ! k),
             image_latents = enc (pixel_values (batches ! k))\<rparr>"
proof (induction batches arbitrary: i files calls k)
  case Nil
  then show ?case by simp
next
  case (Cons b rest)
  show ?case
  proof (cases k)
    case 0
    have "\<forall>j\<ge>Suc i. cache_file bs i \<noteq> cache_file bs j"
      by (simp add: cache_file_inj)
    then show ?thesis
      using 0 by (simp add: cache_batches_other torch_save_def update_conv')
  next
    case (Suc k')
    with Cons.prems have "k' < length rest" by simp
    from Cons.IH [OF this, of "Suc i"] Suc show ?thesis by simp
  qed
qed

lemma cache_batches_nonempty:
  "batches \<noteq> [] \<Longrightarrow> fst (cache_batches enc bs i batches (files, calls)) \<noteq> []"
proof -
  assume "batches \<noteq> []"
  then have "0 < length batches" by simp
  from cache_batches_written [OF this, of enc bs i files calls]
  show ?thesis by auto
qed

lemma build_cache_skip:
  "files \<noteq> [] \<Longrightarrow> build_cache False enc bs batches (Some files) = (Some files, 0)"
  by (simp add: build_cache_def makedirs_def path_exists_def listdir_def)

lemma build_cache_rebuild:
  assumes "cache \<or> d = None \<or> d = Some []"
  shows "build_cache cache enc bs batches d =
           (Some (fst (cache_batches enc bs 0 batches (case d of None \<Rightarrow> [] | Some fs \<Rightarrow> fs, 0))),
            length batches)"
proof -
  obtain fs n where r: "cache_batches enc bs 0 batches (case d of None \<Rightarrow> [] | Some fs \<Rightarrow> fs, 0) = (fs, n)"
    by (cases "cache_batches enc bs 0 batches (case d of None \<Rightarrow> [] | Some fs \<Rightarrow> fs, 0)")
  from cache_batches_calls [of enc bs 0 batches "case d of None \<Rightarrow> [] | Some fs \<Rightarrow> fs" 0] r
  have n: "n = length batches" by simp
  from assms r n show ?thesis
    by (cases d) (auto simp: build_cache_def makedirs_def path_exists_def listdir_def)
qed

lemma build_cache_again:
  "fs \<noteq> [] \<or> batches = [] \<Longrightarrow> build_cache False enc bs batches (Some fs) = (Some fs, 0)"
  by (cases "fs = []")
     (simp_all add: build_cache_def makedirs_def path_exists_def listdir_def)

lemma build_cache_result:
  "\<exists>fs. fst (build_cache cache enc bs batches d) = Some fs \<and> (fs \<noteq> [] \<or> batches = [])"
proof (cases "cache \<or> d = None \<or> d = Some []")
  case True
  from build_cache_rebuild [OF True, of enc bs batches]
  show ?thesis
    using cache_batches_nonempty [of batches enc bs 0 "case d of None \<Rightarrow> [] | Some fs \<Rightarrow> fs" 0]
    by auto
next
  case False
  then obtain fs where "d = Some fs" "fs \<noteq> []" "\<not> cache" by (cases d) auto
  then show ?thesis by (simp add: build_cache_skip)
qed

text \<open>
  Claim C4. The cache build is idempotent. On a cache directory that already holds at
  least one file, with the force flag unset, the build is skipped: no encoder invocation
  is made and the directory, every file with its content, is returned unchanged. In
  particular a second build with the flag unset, run on the directory that any first
  build left behind, makes no encoder invocation and changes nothing.
\<close>

theorem build_cache_idempotent:
  "(files \<noteq> [] \<longrightarrow> build_cache False enc bs batches (Some files) = (Some files, 0))
   \<and> build_cache False enc bs batches (fst (build_cache cache enc bs batches d0)) =
       (fst (build_cache cache enc bs batches d0), 0)"
proof
  show "files \<noteq> [] \<longrightarrow> build_cache False enc bs batches (Some files) = (Some files, 0)"
    by (simp add: build_cache_skip)
next
  from build_cache_result [of cache enc bs batches d0]
  obtain fs where "fst (build_cache cache enc bs batches d0) = Some fs"
    and "fs \<noteq> [] \<or> batches = []" by blast
  then show "build_cache False enc bs batches (fst (build_cache cache enc bs batches d0)) =
       (fst (build_cache cache enc bs batches d0), 0)"
    by (simp add: build_cache_again)
qed

theorem build_cache_idempotent_witness:
  "[(cache_file 4 0, \<lparr>shard_input_ids = 1::nat, image_latents = 7::nat\<rparr>)] \<noteq> []
   \<and> build_cache False Suc 4
        [\<lparr>input_ids = 1::nat, pixel_values = 2::nat\<rparr>, \<lparr>input_ids = 3, pixel_values = 4\<rparr>]
        (Some [(cache_file 4 0, \<lparr>shard_input_ids = 1, image_latents = 7\<rparr>)]) =
      (Some [(cache_file 4 0, \<lparr>shard_input_ids = 1, image_latents = 7\<rparr>)], 0)"
proof -
  have ne: "[(cache_file 4 0, \<lparr>shard_input_ids = 1::nat, image_latents = 7::nat\<rparr>)] \<noteq> []"
    by simp
  from ne build_cache_idempotent
    [of "[(cache_file 4 0, \<lparr>shard_input_ids = 1::nat, image_latents = 7::nat\<rparr>)]" Suc 4
        "[\<lparr>input_ids = 1::nat, pixel_values = 2::nat\<rparr>, \<lparr>input_ids = 3, pixel_values = 4\<rparr>]"]
  show ?thesis by blast
qed

text \<open>
  Claim C5, as stated, fails. With two batches at batch size 4 and a cache directory that
  holds only the first of the two expected shard files, a build with the force flag unset
  is skipped: it makes no encoder invocation, leaves the directory as it is, and the
  directory stays neither empty nor complete.
\<close>

theorem incomplete_cache_not_rebuilt:
  "\<not> cache_complete 4 2
        (Some [(cache_file 4 0, \<lparr>shard_input_ids = 1::nat, image_latents = 7::nat\<rparr>)])
   \<and> \<not> cache_empty
        (Some [(cache_file 4 0, \<lparr>shard_input_ids = 1::nat, image_latents = 7::nat\<rparr>)])
   \<and> build_cache False Suc 4
        [\<lparr>input_ids = 1::nat, pixel_values = 2::nat\<rparr>, \<lparr>input_ids = 3, pixel_values = 4\<rparr>]
        (Some [(cache_file 4 0, \<lparr>shard_input_ids = 1, image_latents = 7\<rparr>)]) =
      (Some [(cache_file 4 0, \<lparr>shard_input_ids = 1, image_latents = 7\<rparr>)], 0)"
proof -
  have "[0..<2] = [0, 1]" by (simp add: upt_rec)
  then have "\<not> cache_complete 4 2
        (Some [(cache_file 4 0, \<lparr>shard_input_ids = 1::nat, image_latents = 7::nat\<rparr>)])"
    by (simp add: cache_complete_def expected_shards_def listdir_def cache_file_inj)
  moreover have "\<not> cache_empty
        (Some [(cache_file 4 0, \<lparr>shard_input_ids = 1::nat, image_latents = 7::nat\<rparr>)])"
    by (simp add: cache_empty_def listdir_def)
  ultimately show ?thesis
    by (simp add: build_cache_skip)
qed

text \<open>
  Claim C5, amended. A full rebuild happens exactly when the force flag is set or the
  cache directory is absent or holds no file: then every batch is encoded once, every
  expected shard file is written with the encoding of its batch, and the directory is
  complete afterwards. A cache directory that holds any file, complete or not, with
  the force flag unset is used as it is: nothing is encoded and nothing is written.
\<close>

theorem rebuild_iff_forced_or_empty:
  "(cache \<or> d = None \<or> d = Some [] \<longrightarrow>
      (\<exists>files. build_cache cache enc bs batches d = (Some files, length batches)
         \<and> cache_complete bs (length batches) (Some files)
         \<and> (\<forall>k<length batches. map_of files (cache_file bs k) =
               Some \<lparr>shard_input_ids = input_ids (batches ! k),
                     image_latents = enc (pixel_values (batches ! k))\<rparr>)))
   \<and> (\<not> cache \<and> d = Some fs \<and> fs \<noteq> [] \<longrightarrow>
        build_cache cache enc bs batches d = (d, 0))"
proof (intro conjI impI)
  assume go: "cache \<or> d = None \<or> d = Some []"
  let ?files = "fst (cache_batches enc bs 0 batches (case d of None \<Rightarrow> [] | Some fs \<Rightarrow> fs, 0))"
  have written: "map_of ?files (cache_file bs k) =
        Some \<lparr>shard_input_ids = input_ids (batches ! k),
              image_latents = enc (pixel_values (batches ! k))\<rparr>"
    if "k < length batches" for k
    using cache_batches_written [OF that, of enc bs 0] by simp
  have "cache_file bs k \<in> set (map fst ?files)" if "k < length batches" for k
    using written [OF that] by (auto dest: map_of_SomeD intro: rev_image_eqI)
  then have "cache_complete bs (length batches) (Some ?files)"
    by (simp add: cache_complete_def expected_shards_def listdir_def list_all_iff)
  with written build_cache_rebuild [OF go, of enc bs batches]
  show "\<exists>files. build_cache cache enc bs batches d = (Some files, length batches)
         \<and> cache_complete bs (length batches) (Some files)
         \<and> (\<forall>k<length batches. map_of files (cache_file bs k) =
               Some \<lparr>shard_input_ids = input_ids (batches ! k),
                     image_latents = enc (pixel_values (batches ! k))\<rparr>)"
    by blast
next
  assume "\<not> cache \<and> d = Some fs \<and> fs \<noteq> []"
  then show "build_cache cache enc bs batches d = (d, 0)"
    by (simp add: build_cache_skip)
qed

theorem rebuild_iff_forced_or_empty_witness:
  "(\<exists>files. build_cache False Suc 4
        [\<lparr>input_ids = 1::nat, pixel_values = 2::nat\<rparr>, \<lparr>input_ids = 3, pixel_values = 4\<rparr>]
        None = (Some files, 2) \<and> cache_complete 4 2 (Some files))
   \<and> build_cache False Suc 4
        [\<lparr>input_ids = 1::nat, pixel_values = 2::nat\<rparr>, \<lparr>input_ids = 3, pixel_values = 4\<rparr>]
        (Some [(cache_file 4 1, \<lparr>shard_input_ids = 3, image_latents = 9\<rparr>)]) =
      (Some [(cache_file 4 1, \<lparr>shard_input_ids = 3, image_latents = 9\<rparr>)], 0)"
proof -
  let ?bs = "[\<lparr>input_ids = 1::nat, pixel_values = 2::nat\<rparr>, \<lparr>input_ids = 3, pixel_values = 4\<rparr>]"
  let ?fs = "[(cache_file 4 1, \<lparr>shard_input_ids = 3::nat, image_latents = 9::nat\<rparr>)]"
  have len: "length ?bs = 2" by simp
  have a: "\<exists>files. build_cache False Suc 4 ?bs None = (Some files, 2)
              \<and> cache_complete 4 2 (Some files)"
    using rebuild_iff_forced_or_empty [of False None Suc 4 ?bs ?fs] unfolding len by blast
  have hyp: "\<not> False \<and> Some ?fs = Some ?fs \<and> ?fs \<noteq> []" by simp
  have b: "build_cache False Suc 4 ?bs (Some ?fs) = (Some ?fs, 0)"
    using hyp rebuild_iff_forced_or_empty [of False "Some ?fs" Suc 4 ?bs ?fs] by blast
  from a b show ?thesis by blast
qed

section \<open>Properties of the timestep sampling\<close>

lemma override_due_nonzero:
  "N_inference \<noteq> 0 \<Longrightarrow> N_debug \<noteq> 0 \<Longrightarrow>
     override_due step N_inference N_debug =
       Inr (step mod N_inference = 0 \<or> step mod N_debug = 0)"
  by (simp add: override_due_def py_mod_def)

lemma multiples_of_20_upto_40:
  fixes s :: int
  assumes "1 \<le> s" "s \<le> 40"
  shows "s mod 20 = 0 \<longleftrightarrow> s = 20 \<or> s = 40"
  using assms by presburger

text \<open>
  Claim C2. With non-zero cadences, at a step whose counter is a multiple of the debug
  cadence or of the inference cadence every sample of the batch gets the timestep 0.7
  (the fill value of \<open>torch.full\<close>); at any other step the samples keep the values that
  \<open>torch.rand\<close> drew for them, one per sample, so whatever holds of every drawn value
  (such as lying in \<open>[0, 1)\<close>) holds of every timestep. The decision is a function of
  the step counter and the two cadences alone. With the debug cadence 20 and an
  inference cadence beyond 40 (the default is 200), the steps among \<open>1..40\<close> with fixed
  timesteps are exactly 20 and 40.
\<close>

theorem timestep_override:
  assumes "N_inference \<noteq> 0" and "N_debug \<noteq> 0"
  shows "(N_debug dvd step \<or> N_inference dvd step \<longrightarrow>
            sample_times to_dtype rand step N_inference N_debug =
              Inr (replicate (length rand) (to_dtype 0.7)))
       \<and> (\<not> (N_debug dvd step \<or> N_inference dvd step) \<longrightarrow>
            sample_times to_dtype rand step N_inference N_debug = Inr rand
            \<and> ((\<forall>x\<in>set rand. P x) \<longrightarrow>
                 (\<exists>ts. sample_times to_dtype rand step N_inference N_debug = Inr ts
                    \<and> length ts = length rand \<and> (\<forall>x\<in>set ts. P x))))
       \<and> (40 < N_inference \<longrightarrow>
            {s. 1 \<le> s \<and> s \<le> 40 \<and> override_due s N_inference 20 = Inr True} = {20, 40})"
proof (intro conjI impI)
  assume "N_debug dvd step \<or> N_inference dvd step"
  then show "sample_times to_dtype rand step N_inference N_debug =
      Inr (replicate (length rand) (to_dtype 0.7))"
    using assms
    by (auto simp: sample_times_def override_due_nonzero timestep_def torch_full_def
                   mod_eq_0_iff_dvd)
next
  assume no: "\<not> (N_debug dvd step \<or> N_inference dvd step)"
  then show eq: "sample_times to_dtype rand step N_inference N_debug = Inr rand"
    using assms
    by (auto simp: sample_times_def override_due_nonzero mod_eq_0_iff_dvd)
  assume "\<forall>x\<in>set rand. P x"
  with eq show "\<exists>ts. sample_times to_dtype rand step N_inference N_debug = Inr ts
                    \<and> length ts = length rand \<and> (\<forall>x\<in>set ts. P x)"
    by simp
next
  assume big: "40 < N_inference"
  have "override_due s N_inference 20 = Inr True \<longleftrightarrow> s = 20 \<or> s = 40"
    if "1 \<le> s" "s \<le> 40" for s
  proof -
    from that big have "s mod N_inference = s" by simp
    with that big show ?thesis
      by (simp add: override_due_nonzero multiples_of_20_upto_40)
  qed
  then show "{s. 1 \<le> s \<and> s \<le> 40 \<and> override_due s N_inference 20 = Inr True} = {20, 40}"
    by auto
qed

theorem timestep_override_witness:
  "(200::int) \<noteq> 0 \<and> (20::int) \<noteq> 0 \<and> (20::int) dvd 40
   \<and> \<not> ((20::int) dvd 41 \<or> (200::int) dvd 41)
   \<and> sample_times (\<lambda>v. v) [1 / 10, 9 / 10] 40 200 20 = Inr [0.7, 0.7]
   \<and> sample_times (\<lambda>v. v) [1 / 10, 9 / 10] 41 200 20 = Inr [1 / 10, 9 / 10]
   \<and> (\<exists>ts. sample_times (\<lambda>v. v) [1 / 10, 9 / 10] 41 200 20 = Inr ts
         \<and> length ts = length [1 / 10, 9 / 10 :: real]
         \<and> list_all (\<lambda>x. 0 \<le> x \<and> x < 1) ts)
   \<and> {s. 1 \<le> s \<and> s \<le> 40 \<and> override_due s 200 20 = Inr True} = {20, 40}"
proof -
  have c1: "(200::int) \<noteq> 0" and c2: "(20::int) \<noteq> 0" by simp_all
  have d1: "(20::int) dvd 40 \<or> (200::int) dvd 40" by simp
  have d1': "(20::int) dvd 40" by simp
  have d2: "\<not> ((20::int) dvd 41 \<or> (200::int) dvd 41)" by presburger
  have u: "\<forall>x\<in>set [1 / 10, 9 / 10 :: real]. 0 \<le> x \<and> x < 1" by simp
  have big: "(40::int) < 200" by simp
  note inst = timestep_override [OF c1 c2, where to_dtype = "\<lambda>v::real. v"
      and rand = "[1 / 10, 9 / 10]" and P = "\<lambda>x. 0 \<le> x \<and> x < 1"]
  from d1 inst [of 40]
  have a: "sample_times (\<lambda>v. v) [1 / 10, 9 / 10 :: real] 40 200 20 = Inr [0.7, 0.7]"
    by (simp add: numeral_2_eq_2)
  from d2 inst [of 41]
  have b: "sample_times (\<lambda>v. v) [1 / 10, 9 / 10 :: real] 41 200 20 = Inr [1 / 10, 9 / 10]"
    by blast
  from d2 u inst [of 41]
  have "\<exists>ts. sample_times (\<lambda>v. v) [1 / 10, 9 / 10] 41 200 20 = Inr ts
         \<and> length ts = length [1 / 10, 9 / 10 :: real] \<and> (\<forall>x\<in>set ts. 0 \<le> x \<and> x < 1)"
    by blast
  then have b': "\<exists>ts. sample_times (\<lambda>v. v) [1 / 10, 9 / 10] 41 200 20 = Inr ts
         \<and> length ts = length [1 / 10, 9 / 10 :: real]
         \<and> list_all (\<lambda>x. 0 \<le> x \<and> x < 1) ts"
    by (simp only: list_all_iff)
  from big inst [of 0]
  have c: "{s. 1 \<le> s \<and> s \<le> 40 \<and> override_due s 200 20 = Inr True} = {20, 40}" by blast
  show ?thesis
    by (intro conjI c1 c2 d1' d2 a b b' c)
qed

section \<open>Properties of the training loop\<close>

lemma update_loss_windows_Inr: "\<exists>ws' avt avd. update_loss_windows ws t d = Inr (ws', avt, avd)"
  using moving_average_record_loss [of "text_loss_window ws" t]
        moving_average_record_loss [of "diffusion_loss_window ws" d]
  by (simp add: update_loss_windows_def Let_def split: sum.splits)

lemma train_step_zero:
  assumes "debug_steps a = 0 \<or> inference_steps a = 0 \<or> save_steps a = 0"
  shows "train_step a l ep i st = Inl ZeroDivisionError"
proof -
  obtain ws' avt avd where
    "update_loss_windows (windows st) (fst (l (step_counter st + 1))) (snd (l (step_counter st + 1)))
       = Inr (ws', avt, avd)"
    using update_loss_windows_Inr by blast
  then show ?thesis
    using assms
    by (cases "inference_steps a = 0"; cases "debug_steps a = 0"; cases "save_steps a = 0")
       (simp_all add: train_step_def Let_def py_mod_def override_due_def)
qed

lemma train_step_nonzero:
  assumes "debug_steps a \<noteq> 0" "inference_steps a \<noteq> 0" "save_steps a \<noteq> 0"
  shows "\<exists>ws'. train_step a l ep i st =
           Inr (\<lparr>log_epoch = ep, log_batch = i, log_step = step_counter st + 1,
                 times_fixed = ((step_counter st + 1) mod inference_steps a = 0
                                \<or> (step_counter st + 1) mod debug_steps a = 0),
                 debug_rendered = ((step_counter st + 1) mod debug_steps a = 0),
                 inference_barrier = ((step_counter st + 1) mod inference_steps a = 0),
                 checkpoint_saved = ((step_counter st + 1) mod save_steps a = 0)\<rparr>,
                \<lparr>step_counter = step_counter st + 1, windows = ws'\<rparr>)"
proof -
  obtain ws' avt avd where
    "update_loss_windows (windows st) (fst (l (step_counter st + 1))) (snd (l (step_counter st + 1)))
       = Inr (ws', avt, avd)"
    using update_loss_windows_Inr by blast
  with assms show ?thesis
    by (simp add: train_step_def Let_def py_mod_def override_due_def)
qed

lemma train_step_Inr:
  assumes "train_step a l ep i st = Inr (lg, st')"
  shows "log_epoch lg = ep" "log_batch lg = i" "log_step lg = step_counter st + 1"
    "step_counter st' = step_counter st + 1"
    "debug_steps a \<noteq> 0" "inference_steps a \<noteq> 0" "save_steps a \<noteq> 0"
    "times_fixed lg \<longleftrightarrow> (step_counter st + 1) mod inference_steps a = 0
                        \<or> (step_counter st + 1) mod debug_steps a = 0"
    "debug_rendered lg \<longleftrightarrow> (step_counter st + 1) mod debug_steps a = 0"
    "inference_barrier lg \<longleftrightarrow> (step_counter st + 1) mod inference_steps a = 0"
    "checkpoint_saved lg \<longleftrightarrow> (step_counter st + 1) mod save_steps a = 0"
proof -
  have nz: "debug_steps a \<noteq> 0 \<and> inference_steps a \<noteq> 0 \<and> save_steps a \<noteq> 0"
    using assms train_step_zero [of a l ep i st] by auto
  then show "debug_steps a \<noteq> 0" "inference_steps a \<noteq> 0" "save_steps a \<noteq> 0"
    by simp_all
  from nz train_step_nonzero [of a l ep i st] assms
  obtain ws' where
    lg: "lg = \<lparr>log_epoch = ep, log_batch = i, log_step = step_counter st + 1,
                 times_fixed = ((step_counter st + 1) mod inference_steps a = 0
                                \<or> (step_counter st + 1) mod debug_steps a = 0),
                 debug_rendered = ((step_counter st + 1) mod debug_steps a = 0),
                 inference_barrier = ((step_counter st + 1) mod inference_steps a = 0),
                 checkpoint_saved = ((step_counter st + 1) mod save_steps a = 0)\<rparr>"
    and st': "st' = \<lparr>step_counter = step_counter st + 1, windows = ws'\<rparr>"
    by auto
  show "log_epoch lg = ep" "log_batch lg = i" "log_step lg = step_counter st + 1"
    "step_counter st' = step_counter st + 1"
    "times_fixed lg \<longleftrightarrow> (step_counter st + 1) mod inference_steps a = 0
                        \<or> (step_counter st + 1) mod debug_steps a = 0"
    "debug_rendered lg \<longleftrightarrow> (step_counter st + 1) mod debug_steps a = 0"
    "inference_barrier lg \<longleftrightarrow> (step_counter st + 1) mod inference_steps a = 0"
    "checkpoint_saved lg \<longleftrightarrow> (step_counter st + 1) mod save_steps a = 0"
    by (simp_all add: lg st')
qed

lemma train_step_ok:
  assumes "debug_steps a \<noteq> 0" "inference_steps a \<noteq> 0" "save_steps a \<noteq> 0"
  shows "\<exists>lg st'. train_step a l ep i st = Inr (lg, st')"
  using train_step_nonzero [OF assms, of l ep i st] by blast

lemma run_batches_Cons_Inr:
  assumes "train_step a l ep i st = Inr (lg, st1)"
  shows "fst (run_batches a l ep (i # rest) st) = lg # fst (run_batches a l ep rest st1)"
    and "snd (run_batches a l ep (i # rest) st) = snd (run_batches a l ep rest st1)"
  using assms by (simp_all split: prod.splits)

lemma run_batches_Cons_Inl:
  assumes "train_step a l ep i st = Inl e"
  shows "run_batches a l ep (i # rest) st = ([], Inl e)"
  using assms by simp

lemma run_batches_length: "length (fst (run_batches a l ep bs st)) \<le> length bs"
proof (induction bs arbitrary: st)
  case Nil
  show ?case by simp
next
  case (Cons i rest)
  show ?case
  proof (cases "train_step a l ep i st")
    case (Inl e)
    then show ?thesis by (simp only: run_batches_Cons_Inl) simp
  next
    case (Inr p)
    obtain lg st1 where p: "p = (lg, st1)" by (cases p)
    from Inr p have s: "train_step a l ep i st = Inr (lg, st1)" by simp
    show ?thesis
      using Cons.IH [of st1] by (simp only: run_batches_Cons_Inr(1) [OF s]) simp
  qed
qed

lemma run_batches_positions:
  "map step_position (fst (run_batches a l ep bs st)) =
     map (\<lambda>k. (ep, bs ! k, step_counter st + 1 + int k))
         [0..<length (fst (run_batches a l ep bs st))]"
proof (induction bs arbitrary: st)
  case Nil
  show ?case by simp
next
  case (Cons i rest)
  show ?case
  proof (cases "train_step a l ep i st")
    case (Inl e)
    then show ?thesis by (simp only: run_batches_Cons_Inl) simp
  next
    case (Inr p)
    obtain lg st1 where p: "p = (lg, st1)" by (cases p)
    from Inr p have s: "train_step a l ep i st = Inr (lg, st1)" by simp
    note step = train_step_Inr [OF s]
    let ?lgs = "fst (run_batches a l ep rest st1)"
    have pos: "step_position lg = (ep, i, step_counter st + 1)"
      using step(1,2,3) by (simp add: step_position_def)
    have "map step_position ?lgs =
            map (\<lambda>k. (ep, rest ! k, step_counter st1 + 1 + int k)) [0..<length ?lgs]"
      by (rule Cons.IH)
    also have "\<dots> = map (\<lambda>k. (ep, (i # rest) ! Suc k, step_counter st + 1 + int (Suc k)))
                        [0..<length ?lgs]"
      using step(4) by simp
    finally have ih: "map step_position ?lgs =
        map (\<lambda>k. (ep, (i # rest) ! Suc k, step_counter st + 1 + int (Suc k))) [0..<length ?lgs]" .
    have "map (\<lambda>k. (ep, (i # rest) ! k, step_counter st + 1 + int k)) [0..<Suc (length ?lgs)]
            = (ep, i, step_counter st + 1)
              # map (\<lambda>k. (ep, (i # rest) ! Suc k, step_counter st + 1 + int (Suc k)))
                    [0..<length ?lgs]"
      by (simp only: map_upt_Suc) simp
    with ih pos show ?thesis
      by (simp only: run_batches_Cons_Inr(1) [OF s] list.map length_Cons)
  qed
qed

lemma run_batches_entries:
  "lg \<in> set (fst (run_batches a l ep bs st)) \<Longrightarrow> log_entry_ok a lg"
proof (induction bs arbitrary: st)
  case Nil
  then show ?case by simp
next
  case (Cons i rest)
  show ?case
  proof (cases "train_step a l ep i st")
    case (Inl e)
    with Cons.prems show ?thesis by (simp only: run_batches_Cons_Inl) simp
  next
    case (Inr p)
    obtain lg1 st1 where p: "p = (lg1, st1)" by (cases p)
    from Inr p have s: "train_step a l ep i st = Inr (lg1, st1)" by simp
    note step = train_step_Inr [OF s]
    have here: "log_entry_ok a lg1"
      using step(3,8,9,10,11) by (simp add: log_entry_ok_def)
    from Cons.prems have "lg = lg1 \<or> lg \<in> set (fst (run_batches a l ep rest st1))"
      by (simp only: run_batches_Cons_Inr(1) [OF s]) simp
    with here Cons.IH [of st1] show ?thesis by blast
  qed
qed

lemma run_batches_final:
  "snd (run_batches a l ep bs st) = Inr st' \<Longrightarrow>
     length (fst (run_batches a l ep bs st)) = length bs
     \<and> step_counter st' = step_counter st + int (length bs)"
proof (induction bs arbitrary: st)
  case Nil
  then show ?case by simp
next
  case (Cons i rest)
  show ?case
  proof (cases "train_step a l ep i st")
    case (Inl e)
    with Cons.prems show ?thesis by (simp only: run_batches_Cons_Inl) simp
  next
    case (Inr p)
    obtain lg1 st1 where p: "p = (lg1, st1)" by (cases p)
    from Inr p have s: "train_step a l ep i st = Inr (lg1, st1)" by simp
    note step = train_step_Inr [OF s]
    from Cons.prems have "snd (run_batches a l ep rest st1) = Inr st'"
      by (simp only: run_batches_Cons_Inr(2) [OF s])
    from Cons.IH [OF this] step(4) show ?thesis
      by (simp only: run_batches_Cons_Inr(1) [OF s]) simp
  qed
qed

lemma run_batches_ok:
  assumes "debug_steps a \<noteq> 0" "inference_steps a \<noteq> 0" "save_steps a \<noteq> 0"
  shows "\<exists>st'. snd (run_batches a l ep bs st) = Inr st'"
proof (induction bs arbitrary: st)
  case Nil
  show ?case by simp
next
  case (Cons i rest)
  from train_step_ok [OF assms, of l ep i st]
  obtain lg st1 where s: "train_step a l ep i st = Inr (lg, st1)" by blast
  from Cons.IH [of st1] show ?case
    by (simp only: run_batches_Cons_Inr(2) [OF s])
qed

lemma run_batches_nth:
  assumes "k < length (fst (run_batches a l ep bs st))"
  shows "step_position (fst (run_batches a l ep bs st) ! k) =
           (ep, bs ! k, step_counter st + 1 + int k)"
proof -
  let ?lgs = "fst (run_batches a l ep bs st)"
  have "step_position (?lgs ! k) = map step_position ?lgs ! k"
    using assms by simp
  also have "\<dots> = map (\<lambda>k. (ep, bs ! k, step_counter st + 1 + int k)) [0..<length ?lgs] ! k"
    by (simp only: run_batches_positions [symmetric])
  also have "\<dots> = (ep, bs ! k, step_counter st + 1 + int k)"
    using assms by simp
  finally show ?thesis .
qed

lemma run_epochs_Cons_Inl:
  assumes "snd (run_batches a l ep [1..<Suc L] st) = Inl e"
  shows "run_epochs a l L (ep # rest) st = (fst (run_batches a l ep [1..<Suc L] st), Inl e)"
  using assms by (cases "run_batches a l ep [1..<Suc L] st") simp

lemma run_epochs_Cons_Inr:
  assumes "snd (run_batches a l ep [1..<Suc L] st) = Inr st1"
  shows "fst (run_epochs a l L (ep # rest) st) =
           fst (run_batches a l ep [1..<Suc L] st) @ fst (run_epochs a l L rest st1)"
    and "snd (run_epochs a l L (ep # rest) st) = snd (run_epochs a l L rest st1)"
  using assms
  by (cases "run_batches a l ep [1..<Suc L] st"; simp split: prod.splits)+

lemma run_epochs_length_le:
  "length (fst (run_epochs a l L es st)) \<le> length es * L"
proof (induction es arbitrary: st)
  case Nil
  show ?case by simp
next
  case (Cons ep rest)
  let ?rb = "run_batches a l ep [1..<Suc L] st"
  have len: "length (fst ?rb) \<le> L"
    using run_batches_length [of a l ep "[1..<Suc L]" st] by (simp del: upt_Suc)
  show ?case
  proof (cases "snd ?rb")
    case (Inl e)
    from len show ?thesis
      by (simp only: run_epochs_Cons_Inl [OF Inl] fst_conv) simp
  next
    case (Inr st1)
    from len Cons.IH [of st1] show ?thesis
      by (simp only: run_epochs_Cons_Inr(1) [OF Inr]) simp
  qed
qed

lemma run_epochs_nth:
  "k < length (fst (run_epochs a l L es st)) \<Longrightarrow>
     step_position (fst (run_epochs a l L es st) ! k) =
       (es ! (k div L), Suc (k mod L), step_counter st + 1 + int k)"
proof (induction es arbitrary: st k)
  case Nil
  then show ?case by simp
next
  case (Cons ep rest)
  let ?rb = "run_batches a l ep [1..<Suc L] st"
  let ?lgs = "fst ?rb"
  have len: "length ?lgs \<le> L"
    using run_batches_length [of a l ep "[1..<Suc L]" st] by (simp del: upt_Suc)
  have first: "step_position (?lgs ! j) = ((ep # rest) ! (j div L), Suc (j mod L),
                 step_counter st + 1 + int j)" if "j < length ?lgs" for j
  proof -
    from that len have jL: "j < L" by simp
    then have "[1..<Suc L] ! j = Suc j" by (simp add: nth_upt del: upt_Suc)
    with run_batches_nth [OF that] jL show ?thesis by (simp del: upt_Suc)
  qed
  show ?case
  proof (cases "snd ?rb")
    case (Inl e)
    from Cons.prems have "k < length ?lgs"
      by (simp only: run_epochs_Cons_Inl [OF Inl] fst_conv)
    from first [OF this] show ?thesis
      by (simp only: run_epochs_Cons_Inl [OF Inl] fst_conv)
  next
    case (Inr st1)
    from run_batches_final [OF Inr]
    have full: "length ?lgs = L" and sc: "step_counter st1 = step_counter st + int L"
      by simp_all
    let ?rest = "fst (run_epochs a l L rest st1)"
    have app: "fst (run_epochs a l L (ep # rest) st) = ?lgs @ ?rest"
      by (rule run_epochs_Cons_Inr(1) [OF Inr])
    show ?thesis
    proof (cases "k < L")
      case True
      with full have "k < length ?lgs" by simp
      from first [OF this] True full show ?thesis
        by (simp only: app nth_append) simp
    next
      case False
      then have kL: "L \<le> k" by simp
      from Cons.prems have "k < length ?lgs + length ?rest"
        by (simp only: app length_append)
      with full kL have small: "k - L < length ?rest" by simp
      with run_epochs_length_le [of a l L rest st1] have "k - L < length rest * L"
        by simp
      then have Lpos: "0 < L" by (cases L) simp_all
      have d: "k div L = Suc ((k - L) div L)"
        using kL Lpos by (simp add: le_div_geq)
      have m: "k mod L = (k - L) mod L"
        using kL by (simp add: le_mod_geq)
      from Cons.IH [OF small]
      have "step_position (?rest ! (k - L)) =
              (rest ! ((k - L) div L), Suc ((k - L) mod L), step_counter st1 + 1 + int (k - L))" .
      with sc kL d m have "step_position (?rest ! (k - L)) =
              ((ep # rest) ! (k div L), Suc (k mod L), step_counter st + 1 + int k)"
        by simp
      with False full show ?thesis
        by (simp only: app nth_append) simp
    qed
  qed
qed

lemma run_epochs_entries:
  "lg \<in> set (fst (run_epochs a l L es st)) \<Longrightarrow> log_entry_ok a lg"
proof (induction es arbitrary: st)
  case Nil
  then show ?case by simp
next
  case (Cons ep rest)
  let ?rb = "run_batches a l ep [1..<Suc L] st"
  show ?case
  proof (cases "snd ?rb")
    case (Inl e)
    from Cons.prems have "lg \<in> set (fst ?rb)"
      by (simp only: run_epochs_Cons_Inl [OF Inl] fst_conv)
    then show ?thesis by (rule run_batches_entries)
  next
    case (Inr st1)
    from Cons.prems
    have "lg \<in> set (fst ?rb) \<or> lg \<in> set (fst (run_epochs a l L rest st1))"
      by (simp only: run_epochs_Cons_Inr(1) [OF Inr] set_append Un_iff)
    then show ?thesis
      using run_batches_entries Cons.IH by blast
  qed
qed

lemma run_epochs_complete:
  assumes "debug_steps a \<noteq> 0" "inference_steps a \<noteq> 0" "save_steps a \<noteq> 0"
  shows "length (fst (run_epochs a l L es st)) = length es * L
         \<and> (\<exists>st'. snd (run_epochs a l L es st) = Inr st'
                \<and> step_counter st' = step_counter st + int (length es * L))"
proof (induction es arbitrary: st)
  case Nil
  show ?case by simp
next
  case (Cons ep rest)
  let ?rb = "run_batches a l ep [1..<Suc L] st"
  from run_batches_ok [OF assms, of l ep "[1..<Suc L]" st]
  obtain st1 where r: "snd ?rb = Inr st1" by blast
  from run_batches_final [OF r]
  have full: "length (fst ?rb) = L" and sc: "step_counter st1 = step_counter st + int L"
    by simp_all
  from Cons.IH [of st1] obtain st' where
    len: "length (fst (run_epochs a l L rest st1)) = length rest * L"
    and fin: "snd (run_epochs a l L rest st1) = Inr st'"
    and sc': "step_counter st' = step_counter st1 + int (length rest * L)"
    by blast
  have "length (fst (run_epochs a l L (ep # rest) st)) = length (ep # rest) * L"
    using full len by (simp only: run_epochs_Cons_Inr(1) [OF r]) simp
  moreover have "snd (run_epochs a l L (ep # rest) st) = Inr st'"
    using fin by (simp only: run_epochs_Cons_Inr(2) [OF r])
  moreover have "step_counter st' = step_counter st + int (length (ep # rest) * L)"
    using sc sc' by (simp add: algebra_simps)
  ultimately show ?case by blast
qed

lemma train_loop_nth:
  assumes "k < length (fst (train_loop a l L e0 s0))"
  shows "step_position (fst (train_loop a l L e0 s0) ! k) =
           (e0 + int (k div L), Suc (k mod L), s0 + 1 + int k)"
proof -
  let ?es = "[e0..num_epochs - 1]"
  let ?st = "\<lparr>step_counter = s0,
              windows = \<lparr>text_loss_window = [], diffusion_loss_window = []\<rparr>\<rparr>"
  have k: "k < length (fst (run_epochs a l L ?es ?st))"
    using assms by (simp only: train_loop_def)
  with run_epochs_length_le [of a l L ?es ?st] have kl: "k < length ?es * L" by simp
  then have Lpos: "0 < L" by (cases L) simp_all
  from kl have "k div L < length ?es"
    using Lpos by (simp add: less_mult_imp_div_less)
  then have "?es ! (k div L) = e0 + int (k div L)" by simp
  with run_epochs_nth [OF k] show ?thesis
    by (simp add: train_loop_def)
qed

lemma train_loop_entries:
  "lg \<in> set (fst (train_loop a l L e0 s0)) \<Longrightarrow> log_entry_ok a lg"
  unfolding train_loop_def by (rule run_epochs_entries)

lemma train_loop_complete:
  assumes "debug_steps a \<noteq> 0" "inference_steps a \<noteq> 0" "save_steps a \<noteq> 0"
  shows "length (fst (train_loop a l L e0 s0)) = nat (num_epochs - e0) * L"
    and "\<exists>st'. snd (train_loop a l L e0 s0) = Inr st'
            \<and> step_counter st' = s0 + int (nat (num_epochs - e0) * L)"
proof -
  let ?es = "[e0..num_epochs - 1]"
  let ?st = "\<lparr>step_counter = s0,
              windows = \<lparr>text_loss_window = [], diffusion_loss_window = []\<rparr>\<rparr>"
  have n: "length ?es = nat (num_epochs - e0)" by simp
  from run_epochs_complete [OF assms, of l L ?es ?st]
  show "length (fst (train_loop a l L e0 s0)) = nat (num_epochs - e0) * L"
    by (simp only: train_loop_def n)
  from run_epochs_complete [OF assms, of l L ?es ?st]
  show "\<exists>st'. snd (train_loop a l L e0 s0) = Inr st'
            \<and> step_counter st' = s0 + int (nat (num_epochs - e0) * L)"
    by (simp only: train_loop_def n train_state.simps)
qed

lemma run_epochs_final:
  "snd (run_epochs a l L es st) = Inr st' \<Longrightarrow>
     step_counter st' = step_counter st + int (length (fst (run_epochs a l L es st)))"
proof (induction es arbitrary: st)
  case Nil
  then show ?case by simp
next
  case (Cons ep rest)
  let ?rb = "run_batches a l ep [1..<Suc L] st"
  show ?case
  proof (cases "snd ?rb")
    case (Inl e)
    with Cons.prems show ?thesis
      by (simp only: run_epochs_Cons_Inl [OF Inl] snd_conv) simp
  next
    case (Inr st1)
    from run_batches_final [OF Inr]
    have sc: "step_counter st1 = step_counter st + int (length (fst ?rb))"
      by simp
    from Cons.prems have "snd (run_epochs a l L rest st1) = Inr st'"
      by (simp only: run_epochs_Cons_Inr(2) [OF Inr])
    from Cons.IH [OF this] sc show ?thesis
      by (simp only: run_epochs_Cons_Inr(1) [OF Inr]) simp
  qed
qed

lemma train_loop_final:
  "snd (train_loop a l L e0 s0) = Inr st' \<Longrightarrow>
     step_counter st' = s0 + int (length (fst (train_loop a l L e0 s0)))"
  unfolding train_loop_def by (drule run_epochs_final) simp

section \<open>The step counter along a run\<close>

lemma train_fresh: "\<not> resume a \<Longrightarrow> train a l L r = train_loop a l L 0 0"
  by (simp add: train_def)

lemma train_resumed:
  "resume a \<Longrightarrow> train a l L (Inr (m, opt, sch, e0, s0)) = train_loop a l L e0 s0"
  by (simp add: train_def)

lemma upt_4: "[0..<4] = [0, 1, 2, 3]"
  by (simp add: upt_rec)

text \<open>
  Claim C8. The step counter goes up by exactly one with every training step and is
  never reset. In a run that started with the counter at \<open>s0\<close> (0 in a fresh run, the
  value returned by \<open>resume_checkpoint\<close> in a resumed one), the \<open>k\<close>-th completed step,
  counted from 0 through all epochs, ran with the counter at \<open>s0 + 1 + k\<close>: consecutive
  steps differ by one also across an epoch boundary, every step of a resumed run has a
  counter above the restored value, and the counter at the end of the run is \<open>s0\<close> plus the
  number of steps. With non-zero cadences all steps of all remaining epochs are made.
\<close>

theorem step_counter_increments:
  "map log_step (fst (train_loop a l L e0 s0)) =
     map (\<lambda>k. s0 + 1 + int k) [0..<length (fst (train_loop a l L e0 s0))]
   \<and> (\<forall>k. Suc k < length (fst (train_loop a l L e0 s0)) \<longrightarrow>
          log_step (fst (train_loop a l L e0 s0) ! Suc k) =
            log_step (fst (train_loop a l L e0 s0) ! k) + 1)
   \<and> (\<forall>lg\<in>set (fst (train_loop a l L e0 s0)). s0 < log_step lg)
   \<and> (\<forall>st. snd (train_loop a l L e0 s0) = Inr st \<longrightarrow>
          step_counter st = s0 + int (length (fst (train_loop a l L e0 s0))))
   \<and> (debug_steps a \<noteq> 0 \<and> inference_steps a \<noteq> 0 \<and> save_steps a \<noteq> 0 \<longrightarrow>
          length (fst (train_loop a l L e0 s0)) = nat (num_epochs - e0) * L
          \<and> (\<exists>st. snd (train_loop a l L e0 s0) = Inr st))
   \<and> (\<not> resume a \<longrightarrow> train a l L r = train_loop a l L 0 0)
   \<and> (resume a \<longrightarrow> train a l L (Inr (m, opt, sch, e0, s0)) = train_loop a l L e0 s0)"
proof -
  let ?logs = "fst (train_loop a l L e0 s0)"
  have nth: "log_step (?logs ! k) = s0 + 1 + int k" if "k < length ?logs" for k
    using train_loop_nth [OF that] by (simp add: step_position_def)
  have a: "map log_step ?logs = map (\<lambda>k. s0 + 1 + int k) [0..<length ?logs]"
    by (rule nth_equalityI) (simp_all add: nth)
  have b: "\<forall>k. Suc k < length ?logs \<longrightarrow> log_step (?logs ! Suc k) = log_step (?logs ! k) + 1"
    by (simp add: nth)
  have c: "\<forall>lg\<in>set ?logs. s0 < log_step lg"
    by (auto simp: in_set_conv_nth nth)
  have d: "\<forall>st. snd (train_loop a l L e0 s0) = Inr st \<longrightarrow>
          step_counter st = s0 + int (length ?logs)"
    using train_loop_final by blast
  have e: "debug_steps a \<noteq> 0 \<and> inference_steps a \<noteq> 0 \<and> save_steps a \<noteq> 0 \<longrightarrow>
          length ?logs = nat (num_epochs - e0) * L
          \<and> (\<exists>st. snd (train_loop a l L e0 s0) = Inr st)"
    using train_loop_complete [of a l L e0 s0] by blast
  have f: "\<not> resume a \<longrightarrow> train a l L r = train_loop a l L 0 0"
    by (simp add: train_fresh)
  have g: "resume a \<longrightarrow> train a l L (Inr (m, opt, sch, e0, s0)) = train_loop a l L e0 s0"
    by (simp add: train_resumed)
  from a b c d e f g show ?thesis by blast
qed

theorem step_counter_increments_witness:
  "resume (default_args\<lparr>resume := True\<rparr>)
   \<and> debug_steps (default_args\<lparr>resume := True\<rparr>) \<noteq> 0
   \<and> inference_steps (default_args\<lparr>resume := True\<rparr>) \<noteq> 0
   \<and> save_steps (default_args\<lparr>resume := True\<rparr>) \<noteq> 0
   \<and> map log_step
         (fst (train (default_args\<lparr>resume := True\<rparr>) (\<lambda>s. (Finite 1, Finite 1)) 2
                 (Inr ((), (), (), 8, 350)))) = [351, 352, 353, 354]
   \<and> (\<exists>st. snd (train (default_args\<lparr>resume := True\<rparr>) (\<lambda>s. (Finite 1, Finite 1)) 2
                  (Inr ((), (), (), 8, 350))) = Inr st
          \<and> step_counter st = 354)"
proof -
  let ?a = "default_args\<lparr>resume := True\<rparr>"
  let ?l = "\<lambda>s::int. (Finite 1, Finite 1)"
  let ?logs = "fst (train_loop ?a ?l 2 8 350)"
  note inst = step_counter_increments [where a = ?a and l = ?l and L = 2
      and ?e0.0 = 8 and ?s0.0 = 350 and r = "Inl ZeroDivisionError"
      and m = "()" and opt = "()" and sch = "()"]
  have re: "resume ?a" by simp
  have nz: "debug_steps ?a \<noteq> 0 \<and> inference_steps ?a \<noteq> 0 \<and> save_steps ?a \<noteq> 0"
    by (simp add: default_args_def)
  from inst have "resume ?a \<longrightarrow>
      train ?a ?l 2 (Inr ((), (), (), 8, 350)) = train_loop ?a ?l 2 8 350"
    by (elim conjE)
  with re have tr: "train ?a ?l 2 (Inr ((), (), (), 8, 350)) = train_loop ?a ?l 2 8 350"
    by blast
  from inst have "debug_steps ?a \<noteq> 0 \<and> inference_steps ?a \<noteq> 0 \<and> save_steps ?a \<noteq> 0 \<longrightarrow>
        length ?logs = nat (num_epochs - 8) * 2
        \<and> (\<exists>st. snd (train_loop ?a ?l 2 8 350) = Inr st)"
    by (elim conjE)
  with nz have "length ?logs = nat (num_epochs - 8) * 2"
    and fin: "\<exists>st. snd (train_loop ?a ?l 2 8 350) = Inr st" by blast+
  then have len: "length ?logs = 4" by (simp add: num_epochs_def)
  from inst have "map log_step ?logs = map (\<lambda>k. 350 + 1 + int k) [0..<length ?logs]"
    by (elim conjE)
  with len have steps: "map log_step ?logs = [351, 352, 353, 354]"
    by (simp add: upt_4)
  from inst have "\<forall>st. snd (train_loop ?a ?l 2 8 350) = Inr st \<longrightarrow>
      step_counter st = 350 + int (length ?logs)"
    by (elim conjE)
  with fin len have last: "\<exists>st. snd (train_loop ?a ?l 2 8 350) = Inr st \<and> step_counter st = 354"
    by auto
  from re nz steps last show ?thesis
    by (simp only: tr) blast
qed

text \<open>
  Claim C10. In a fresh run with non-zero cadences and at least one batch, the first
  step runs with the counter at 1: the increment of line 174 comes before every use of
  the counter. On that step no gated effect whose cadence is greater than 1 fires: no
  debug render, no inference barrier, no checkpoint, and no fixed timesteps when both
  the debug and the inference cadence are greater than 1. With a positive save cadence
  no checkpoint is written at a counter below the cadence, and the step with the counter
  equal to the cadence, if the run gets that far, writes one.
\<close>

theorem first_step_is_one:
  assumes "\<not> resume a"
    and "debug_steps a \<noteq> 0" and "inference_steps a \<noteq> 0" and "save_steps a \<noteq> 0"
    and "0 < L"
  shows "length (fst (train a l L r)) = 10 * L
     \<and> step_position (hd (fst (train a l L r))) = (0, 1, 1)
     \<and> (1 < debug_steps a \<longrightarrow> \<not> debug_rendered (hd (fst (train a l L r))))
     \<and> (1 < inference_steps a \<longrightarrow> \<not> inference_barrier (hd (fst (train a l L r))))
     \<and> (1 < save_steps a \<longrightarrow> \<not> checkpoint_saved (hd (fst (train a l L r))))
     \<and> (1 < debug_steps a \<and> 1 < inference_steps a \<longrightarrow>
           \<not> times_fixed (hd (fst (train a l L r))))
     \<and> (0 < save_steps a \<longrightarrow>
           (\<forall>k<length (fst (train a l L r)).
              checkpoint_saved (fst (train a l L r) ! k) \<longrightarrow>
                save_steps a \<le> log_step (fst (train a l L r) ! k)))
     \<and> (0 < save_steps a \<and> save_steps a \<le> 10 * int L \<longrightarrow>
           log_step (fst (train a l L r) ! (nat (save_steps a) - 1)) = save_steps a
           \<and> checkpoint_saved (fst (train a l L r) ! (nat (save_steps a) - 1)))"
proof -
  let ?logs = "fst (train a l L r)"
  have tr: "train a l L r = train_loop a l L 0 0"
    using assms(1) by (rule train_fresh)
  have len: "length ?logs = 10 * L"
    using train_loop_complete(1) [OF assms(2,3,4), of l L 0 0]
    by (simp add: tr num_epochs_def)
  have pos: "step_position (?logs ! k) = (int (k div L), Suc (k mod L), 1 + int k)"
    if "k < length ?logs" for k
    using train_loop_nth [of k a l L 0 0] that by (simp add: tr)
  have ok: "log_entry_ok a (?logs ! k)" if "k < length ?logs" for k
    using train_loop_entries [of "?logs ! k" a l L 0 0] that by (simp add: tr)
  have step: "log_step (?logs ! k) = 1 + int k" if "k < length ?logs" for k
    using pos [OF that] by (simp add: step_position_def)
  from len assms(5) have ne: "0 < length ?logs" by simp
  then have hd: "hd ?logs = ?logs ! 0"
    by (simp add: hd_conv_nth)
  have p0: "step_position (hd ?logs) = (0, 1, 1)"
    using pos [OF ne] by (simp add: hd)
  have s0: "log_step (hd ?logs) = 1"
    using step [OF ne] by (simp add: hd)
  have ok0: "log_entry_ok a (hd ?logs)"
    using ok [OF ne] by (simp add: hd)
  have one: "(1::int) mod c \<noteq> 0" if "1 < c" for c
    using that by simp
  have d: "1 < debug_steps a \<longrightarrow> \<not> debug_rendered (hd ?logs)"
    using ok0 s0 one by (simp add: log_entry_ok_def)
  have i: "1 < inference_steps a \<longrightarrow> \<not> inference_barrier (hd ?logs)"
    using ok0 s0 one by (simp add: log_entry_ok_def)
  have s: "1 < save_steps a \<longrightarrow> \<not> checkpoint_saved (hd ?logs)"
    using ok0 s0 one by (simp add: log_entry_ok_def)
  have t: "1 < debug_steps a \<and> 1 < inference_steps a \<longrightarrow> \<not> times_fixed (hd ?logs)"
    using ok0 s0 one by (simp add: log_entry_ok_def)
  have early: "0 < save_steps a \<longrightarrow>
           (\<forall>k<length ?logs. checkpoint_saved (?logs ! k) \<longrightarrow> save_steps a \<le> log_step (?logs ! k))"
  proof (intro impI allI)
    fix k
    assume sp: "0 < save_steps a" and k: "k < length ?logs"
      and saved: "checkpoint_saved (?logs ! k)"
    from ok [OF k] saved step [OF k] have "(1 + int k) mod save_steps a = 0"
      by (simp add: log_entry_ok_def)
    have "\<not> 1 + int k < save_steps a"
    proof
      assume "1 + int k < save_steps a"
      then have "(1 + int k) mod save_steps a = 1 + int k" by simp
      with \<open>(1 + int k) mod save_steps a = 0\<close> show False by simp
    qed
    then have "save_steps a \<le> 1 + int k" by simp
    with step [OF k] show "save_steps a \<le> log_step (?logs ! k)" by simp
  qed
  have at: "0 < save_steps a \<and> save_steps a \<le> 10 * int L \<longrightarrow>
           log_step (?logs ! (nat (save_steps a) - 1)) = save_steps a
           \<and> checkpoint_saved (?logs ! (nat (save_steps a) - 1))"
  proof (intro impI)
    assume sp: "0 < save_steps a \<and> save_steps a \<le> 10 * int L"
    then have "nat (save_steps a) \<le> 10 * L" and "0 < nat (save_steps a)" by linarith+
    with len have k: "nat (save_steps a) - 1 < length ?logs" by linarith
    from sp have eq: "1 + int (nat (save_steps a) - 1) = save_steps a" by linarith
    from step [OF k] eq have a: "log_step (?logs ! (nat (save_steps a) - 1)) = save_steps a"
      by simp
    with ok [OF k] have "checkpoint_saved (?logs ! (nat (save_steps a) - 1))"
      by (simp add: log_entry_ok_def)
    with a show "log_step (?logs ! (nat (save_steps a) - 1)) = save_steps a
           \<and> checkpoint_saved (?logs ! (nat (save_steps a) - 1))" by simp
  qed
  from len p0 d i s t early at show ?thesis by blast
qed

theorem first_step_is_one_witness:
  "\<not> resume default_args \<and> debug_steps default_args \<noteq> 0
   \<and> inference_steps default_args \<noteq> 0 \<and> save_steps default_args \<noteq> 0 \<and> (0::nat) < 30
   \<and> length (fst (train default_args (\<lambda>s. (Finite 1, Finite 1)) 30
                  (Inl CheckpointNotFoundError :: py_error + unit \<times> unit \<times> unit \<times> int \<times> int)))
       = 300
   \<and> step_position (hd (fst (train default_args (\<lambda>s. (Finite 1, Finite 1)) 30
                  (Inl CheckpointNotFoundError :: py_error + unit \<times> unit \<times> unit \<times> int \<times> int))))
       = (0, 1, 1)
   \<and> \<not> debug_rendered (hd (fst (train default_args (\<lambda>s. (Finite 1, Finite 1)) 30
                  (Inl CheckpointNotFoundError :: py_error + unit \<times> unit \<times> unit \<times> int \<times> int))))
   \<and> \<not> inference_barrier (hd (fst (train default_args (\<lambda>s. (Finite 1, Finite 1)) 30
                  (Inl CheckpointNotFoundError :: py_error + unit \<times> unit \<times> unit \<times> int \<times> int))))
   \<and> \<not> checkpoint_saved (hd (fst (train default_args (\<lambda>s. (Finite 1, Finite 1)) 30
                  (Inl CheckpointNotFoundError :: py_error + unit \<times> unit \<times> unit \<times> int \<times> int))))
   \<and> \<not> times_fixed (hd (fst (train default_args (\<lambda>s. (Finite 1, Finite 1)) 30
                  (Inl CheckpointNotFoundError :: py_error + unit \<times> unit \<times> unit \<times> int \<times> int))))
   \<and> log_step (fst (train default_args (\<lambda>s. (Finite 1, Finite 1)) 30
                  (Inl CheckpointNotFoundError :: py_error + unit \<times> unit \<times> unit \<times> int \<times> int)) ! 199)
       = 200
   \<and> checkpoint_saved (fst (train default_args (\<lambda>s. (Finite 1, Finite 1)) 30
                  (Inl CheckpointNotFoundError :: py_error + unit \<times> unit \<times> unit \<times> int \<times> int)) ! 199)"
proof -
  let ?l = "\<lambda>s::int. (Finite 1, Finite 1)"
  let ?r = "Inl CheckpointNotFoundError :: py_error + unit \<times> unit \<times> unit \<times> int \<times> int"
  let ?logs = "fst (train default_args ?l 30 ?r)"
  have h1: "\<not> resume default_args" and h2: "debug_steps default_args \<noteq> 0"
    and h3: "inference_steps default_args \<noteq> 0" and h4: "save_steps default_args \<noteq> 0"
    by (simp_all add: default_args_def)
  have h5: "(0::nat) < 30" by simp
  note inst = first_step_is_one [OF h1 h2 h3 h4 h5, of ?l ?r]
  have c: "1 < debug_steps default_args" "1 < inference_steps default_args"
    "1 < save_steps default_args"
    "0 < save_steps default_args \<and> save_steps default_args \<le> 10 * int 30"
    "nat (save_steps default_args) - 1 = 199" "save_steps default_args = 200"
    by (simp_all add: default_args_def)
  from inst have len: "length ?logs = 300" by simp
  from inst have p0: "step_position (hd ?logs) = (0, 1, 1)" by (elim conjE)
  from inst c(1) have d: "\<not> debug_rendered (hd ?logs)" by blast
  from inst c(2) have i: "\<not> inference_barrier (hd ?logs)" by blast
  from inst c(3) have s: "\<not> checkpoint_saved (hd ?logs)" by blast
  from inst c(1,2) have t: "\<not> times_fixed (hd ?logs)" by blast
  from inst c(4) have "log_step (?logs ! (nat (save_steps default_args) - 1)) =
        save_steps default_args
      \<and> checkpoint_saved (?logs ! (nat (save_steps default_args) - 1))"
    by blast
  then have at: "log_step (?logs ! 199) = 200" "checkpoint_saved (?logs ! 199)"
    by (simp_all add: c(6))
  show ?thesis
    by (intro conjI h1 h2 h3 h4 h5 len p0 d i s t at)
qed

section \<open>Resuming from a checkpoint\<close>

lemma resume_after_save:
  "resume_checkpoint m opt sch (save_checkpoint m' opt' sch' loss e s store) =
     Inr (m', opt', sch', e, s)"
  by (simp add: resume_checkpoint_def save_checkpoint_def)

text \<open>
  Claim C3, as stated, fails: a resumed run does not continue as if uninterrupted. Take
  150 batches per epoch and a save cadence of 350. The fresh run writes its first
  checkpoint at step 350, which is batch 50 of epoch 2, and goes on with batch 51 of
  epoch 2 at step 351. A run resumed from that checkpoint gets epoch 2 and counter 350
  back, but its first step, at counter 351, is batch 1 of epoch 2: the batches 1 to 50 of
  that epoch are processed a second time.
\<close>

theorem resumed_run_repeats_batches:
  "checkpoint_saved
     (fst (train (default_args\<lparr>save_steps := 350\<rparr>) (\<lambda>s. (Finite 1, Finite 1)) 150
             (Inl CheckpointNotFoundError :: py_error + unit \<times> unit \<times> unit \<times> int \<times> int)) ! 349)
   \<and> step_position
       (fst (train (default_args\<lparr>save_steps := 350\<rparr>) (\<lambda>s. (Finite 1, Finite 1)) 150
               (Inl CheckpointNotFoundError :: py_error + unit \<times> unit \<times> unit \<times> int \<times> int)) ! 349)
       = (2, 50, 350)
   \<and> step_position
       (fst (train (default_args\<lparr>save_steps := 350\<rparr>) (\<lambda>s. (Finite 1, Finite 1)) 150
               (Inl CheckpointNotFoundError :: py_error + unit \<times> unit \<times> unit \<times> int \<times> int)) ! 350)
       = (2, 51, 351)
   \<and> resume_checkpoint () () () (save_checkpoint () () () () 2 350 None) =
       Inr ((), (), (), 2, 350)
   \<and> step_position
       (fst (train (default_args\<lparr>save_steps := 350, resume := True\<rparr>)
               (\<lambda>s. (Finite 1, Finite 1)) 150
               (resume_checkpoint () () () (save_checkpoint () () () () 2 350 None))) ! 0)
       = (2, 1, 351)"
proof -
  let ?a = "default_args\<lparr>save_steps := 350\<rparr>"
  let ?b = "default_args\<lparr>save_steps := 350, resume := True\<rparr>"
  let ?l = "\<lambda>s::int. (Finite 1, Finite 1)"
  let ?r = "Inl CheckpointNotFoundError :: py_error + unit \<times> unit \<times> unit \<times> int \<times> int"
  let ?fresh = "fst (train_loop ?a ?l 150 0 0)"
  let ?again = "fst (train_loop ?b ?l 150 2 350)"
  have fresh: "train ?a ?l 150 ?r = train_loop ?a ?l 150 0 0"
    by (rule train_fresh) (simp add: default_args_def)
  have nza: "debug_steps ?a \<noteq> 0" "inference_steps ?a \<noteq> 0" "save_steps ?a \<noteq> 0"
    by (simp_all add: default_args_def)
  have lena: "length ?fresh = 1500"
    using train_loop_complete(1) [OF nza, of ?l 150 0 0] by (simp add: num_epochs_def)
  have k1: "349 < length ?fresh" and k2: "350 < length ?fresh"
    by (simp_all add: lena)
  have p1: "step_position (?fresh ! 349) = (2, 50, 350)"
    using train_loop_nth [OF k1] by simp
  have p2: "step_position (?fresh ! 350) = (2, 51, 351)"
    using train_loop_nth [OF k2] by simp
  have "log_entry_ok ?a (?fresh ! 349)"
    using train_loop_entries [of "?fresh ! 349" ?a ?l 150 0 0] k1 by simp
  with p1 have saved: "checkpoint_saved (?fresh ! 349)"
    by (simp add: log_entry_ok_def step_position_def)
  have res: "resume_checkpoint () () () (save_checkpoint () () () () 2 350 None) =
      Inr ((), (), (), 2, 350)"
    by (rule resume_after_save)
  have again: "train ?b ?l 150 (Inr ((), (), (), 2, 350)) = train_loop ?b ?l 150 2 350"
    by (rule train_resumed) simp
  have nzb: "debug_steps ?b \<noteq> 0" "inference_steps ?b \<noteq> 0" "save_steps ?b \<noteq> 0"
    by (simp_all add: default_args_def)
  have lenb: "length ?again = 1200"
    using train_loop_complete(1) [OF nzb, of ?l 150 2 350] by (simp add: num_epochs_def)
  then have k0: "0 < length ?again" by simp
  have p0: "step_position (?again ! 0) = (2, 1, 351)"
    using train_loop_nth [OF k0] by simp
  from saved p1 p2 res p0 show ?thesis
    by (simp only: fresh res again)
qed

text \<open>
  Claim C3, amended. After a save at epoch \<open>e\<close> and step counter \<open>s\<close>, a restart with the
  resume flag gets the saved model parameters, optimizer state, scheduler state, epoch
  \<open>e\<close> and step counter \<open>s\<close> back exactly. Training then restarts at the first batch of
  epoch \<open>e\<close> with the counter continuing from \<open>s\<close>: with \<open>L\<close> batches per epoch, the \<open>k\<close>-th
  step of the resumed run, counted from 0, is batch \<open>k mod L + 1\<close> of epoch \<open>e + k div L\<close>
  and runs with the counter at \<open>s + 1 + k\<close>. No counter value is skipped or used twice in
  the resumed run, but the batches of epoch \<open>e\<close> that came before the save are processed
  again; with non-zero cadences the resumed run makes all \<open>L\<close> steps of every epoch from
  \<open>e\<close> on.
\<close>

theorem resume_restarts_epoch:
  assumes "resume a"
  shows "resume_checkpoint m opt sch (save_checkpoint m' opt' sch' loss e s store) =
           Inr (m', opt', sch', e, s)
     \<and> (\<forall>k<length (fst (train a l L
                (resume_checkpoint m opt sch (save_checkpoint m' opt' sch' loss e s store)))).
          step_position (fst (train a l L
                (resume_checkpoint m opt sch (save_checkpoint m' opt' sch' loss e s store))) ! k) =
            (e + int (k div L), Suc (k mod L), s + 1 + int k))
     \<and> (debug_steps a \<noteq> 0 \<and> inference_steps a \<noteq> 0 \<and> save_steps a \<noteq> 0 \<longrightarrow>
          length (fst (train a l L
                (resume_checkpoint m opt sch (save_checkpoint m' opt' sch' loss e s store)))) =
            nat (num_epochs - e) * L)"
proof -
  have r: "resume_checkpoint m opt sch (save_checkpoint m' opt' sch' loss e s store) =
      Inr (m', opt', sch', e, s)"
    by (rule resume_after_save)
  have tr: "train a l L (Inr (m', opt', sch', e, s)) = train_loop a l L e s"
    using assms by (rule train_resumed)
  show ?thesis
    unfolding r tr
    using train_loop_nth [of _ a l L e s] train_loop_complete(1) [of a l L e s]
    by blast
qed

theorem resume_restarts_epoch_witness:
  "resume (default_args\<lparr>resume := True\<rparr>)
   \<and> debug_steps (default_args\<lparr>resume := True\<rparr>) \<noteq> 0
   \<and> inference_steps (default_args\<lparr>resume := True\<rparr>) \<noteq> 0
   \<and> save_steps (default_args\<lparr>resume := True\<rparr>) \<noteq> 0
   \<and> resume_checkpoint (0::nat) (0::nat) (0::nat)
         (save_checkpoint (1::nat) (2::nat) (3::nat) (4::nat) 3 400 None) =
       Inr (1, 2, 3, 3, 400)
   \<and> length (fst (train (default_args\<lparr>resume := True\<rparr>) (\<lambda>s. (Finite 1, Finite 1)) 100
         (resume_checkpoint (0::nat) (0::nat) (0::nat)
            (save_checkpoint (1::nat) (2::nat) (3::nat) (4::nat) 3 400 None)))) = 700
   \<and> step_position (fst (train (default_args\<lparr>resume := True\<rparr>) (\<lambda>s. (Finite 1, Finite 1)) 100
         (resume_checkpoint (0::nat) (0::nat) (0::nat)
            (save_checkpoint (1::nat) (2::nat) (3::nat) (4::nat) 3 400 None))) ! 0) = (3, 1, 401)
   \<and> step_position (fst (train (default_args\<lparr>resume := True\<rparr>) (\<lambda>s. (Finite 1, Finite 1)) 100
         (resume_checkpoint (0::nat) (0::nat) (0::nat)
            (save_checkpoint (1::nat) (2::nat) (3::nat) (4::nat) 3 400 None))) ! 100) = (4, 1, 501)"
proof -
  let ?a = "default_args\<lparr>resume := True\<rparr>"
  let ?l = "\<lambda>s::int. (Finite 1, Finite 1)"
  let ?r = "resume_checkpoint (0::nat) (0::nat) (0::nat)
              (save_checkpoint (1::nat) (2::nat) (3::nat) (4::nat) 3 400 None)"
  let ?logs = "fst (train ?a ?l 100 ?r)"
  have re: "resume ?a" by simp
  have nz: "debug_steps ?a \<noteq> 0 \<and> inference_steps ?a \<noteq> 0 \<and> save_steps ?a \<noteq> 0"
    by (simp add: default_args_def)
  note inst = resume_restarts_epoch [OF re, where l = ?l and L = 100 and m = "0::nat"
      and opt = "0::nat" and sch = "0::nat" and m' = "1::nat" and opt' = "2::nat"
      and sch' = "3::nat" and loss = "4::nat" and e = 3 and s = 400 and store = None]
  from inst have r: "?r = Inr (1, 2, 3, 3, 400)" by (elim conjE)
  from inst have "debug_steps ?a \<noteq> 0 \<and> inference_steps ?a \<noteq> 0 \<and> save_steps ?a \<noteq> 0 \<longrightarrow>
      length ?logs = nat (num_epochs - 3) * 100"
    by (elim conjE)
  with nz have "length ?logs = nat (num_epochs - 3) * 100" by blast
  then have len: "length ?logs = 700" by (simp add: num_epochs_def)
  from inst have all: "\<forall>k<length ?logs. step_position (?logs ! k) =
      (3 + int (k div 100), Suc (k mod 100), 400 + 1 + int k)"
    by (elim conjE)
  from len have "0 < length ?logs" and "100 < length ?logs" by simp_all
  with all have "step_position (?logs ! 0) = (3 + int (0 div 100), Suc (0 mod 100), 400 + 1 + int 0)"
    and "step_position (?logs ! 100) =
           (3 + int (100 div 100), Suc (100 mod 100), 400 + 1 + int 100)"
    by blast+
  then have p: "step_position (?logs ! 0) = (3, 1, 401)"
    "step_position (?logs ! 100) = (4, 1, 501)"
    by simp_all
  show ?thesis
    by (intro conjI re nz [THEN conjunct1] nz [THEN conjunct2, THEN conjunct1]
          nz [THEN conjunct2, THEN conjunct2] r len p)
qed

section \<open>Properties of the patch codec\<close>

lemma patch_offset_less:
  fixes p :: nat
  assumes "0 < p"
  shows "(h mod p) * p + w mod p < p * p"
proof -
  from assms have i: "Suc (h mod p) \<le> p" by (simp add: Suc_le_eq)
  from assms have "(h mod p) * p + w mod p < (h mod p) * p + p" by simp
  also have "\<dots> = Suc (h mod p) * p" by simp
  also from i have "\<dots> \<le> p * p" by (rule mult_le_mono1)
  finally show ?thesis .
qed

lemma patch_column:
  fixes p :: nat
  assumes "0 < p"
  shows "(c * p * p + (h mod p) * p + w mod p) div (p * p) = c"
    and "((c * p * p + (h mod p) * p + w mod p) mod (p * p)) div p = h mod p"
    and "(c * p * p + (h mod p) * p + w mod p) mod p = w mod p"
proof -
  let ?o = "(h mod p) * p + w mod p"
  have lt: "?o < p * p" using assms by (rule patch_offset_less)
  have q: "c * p * p + (h mod p) * p + w mod p = c * (p * p) + ?o"
    by (simp add: algebra_simps)
  from lt assms show "(c * p * p + (h mod p) * p + w mod p) div (p * p) = c"
    by (simp only: q) simp
  from lt have "(c * p * p + (h mod p) * p + w mod p) mod (p * p) = ?o"
    by (simp only: q) simp
  then show "((c * p * p + (h mod p) * p + w mod p) mod (p * p)) div p = h mod p"
    using assms by simp
  have "c * p * p + (h mod p) * p + w mod p = w mod p + (c * p + h mod p) * p"
    by (simp add: algebra_simps)
  then show "(c * p * p + (h mod p) * p + w mod p) mod p = w mod p"
    by (simp only: mod_mult_self1) simp
qed

lemma patch_row:
  fixes p :: nat
  assumes "0 < p" and "p dvd W" and "w < W"
  shows "((h div p) * (W div p) + w div p) div (W div p) = h div p"
    and "((h div p) * (W div p) + w div p) mod (W div p) = w div p"
proof -
  from assms have lt: "w div p < W div p"
    by (metis div_less_iff_less_mult dvd_div_mult_self)
  then show "((h div p) * (W div p) + w div p) div (W div p) = h div p"
    by simp
  from lt show "((h div p) * (W div p) + w div p) mod (W div p) = w div p"
    by simp
qed

text \<open>
  Claim C1. For a tensor \<open>x\<close> of shape \<open>[B, C, H, W]\<close> and a patch size \<open>p\<close> that divides
  \<open>H\<close> and \<open>W\<close>, \<open>patchify\<close> succeeds with a tensor of shape
  \<open>[B, (H/p) * (W/p), C * p * p]\<close>, and \<open>unpatchify\<close> of it with the same \<open>p\<close>, \<open>B\<close>,
  \<open>C\<close>, \<open>H\<close>, \<open>W\<close> succeeds with a tensor of the shape of \<open>x\<close> that holds at every
  index the element that \<open>x\<close> holds there.
\<close>

theorem unpatchify_patchify:
  assumes "shape4 x = (B, C, H, W)" and "0 < p" and "p dvd H" and "p dvd W"
  shows "\<exists>ps y. patchify x p = Inr ps
           \<and> shape3 ps = (B, (H div p) * (W div p), C * p * p)
           \<and> unpatchify ps p B C H W = Inr y
           \<and> shape4 y = shape4 x
           \<and> (\<forall>b<B. \<forall>c<C. \<forall>h<H. \<forall>w<W. elem4 y b c h w = elem4 x b c h w)"
proof -
  let ?ps = "\<lparr>shape3 = (B, (H div p) * (W div p), C * p * p),
              elem3 = (\<lambda>b r q.
                 elem4 x b (q div (p * p))
                   ((r div (W div p)) * p + (q mod (p * p)) div p)
                   ((r mod (W div p)) * p + q mod p))\<rparr>"
  let ?y = "\<lparr>shape4 = (B, C, H, W),
             elem4 = (\<lambda>b c h w.
                elem3 ?ps b ((h div p) * (W div p) + w div p)
                  (c * p * p + (h mod p) * p + w mod p))\<rparr>"
  from assms have div: "p \<noteq> 0" "H mod p = 0" "W mod p = 0"
    by (simp_all add: mod_eq_0_iff_dvd)
  have a: "patchify x p = Inr ?ps"
    using assms(1) div by (simp add: patchify_def)
  have b: "unpatchify ?ps p B C H W = Inr ?y"
    using div by (simp add: unpatchify_def)
  have c: "elem4 ?y b c h w = elem4 x b c h w" if "w < W" for b c h w
  proof -
    have "elem4 ?y b c h w =
        elem4 x b ((c * p * p + (h mod p) * p + w mod p) div (p * p))
          ((((h div p) * (W div p) + w div p) div (W div p)) * p
             + ((c * p * p + (h mod p) * p + w mod p) mod (p * p)) div p)
          ((((h div p) * (W div p) + w div p) mod (W div p)) * p
             + (c * p * p + (h mod p) * p + w mod p) mod p)"
      by simp
    also have "\<dots> = elem4 x b c ((h div p) * p + h mod p) ((w div p) * p + w mod p)"
      by (simp only: patch_column [OF assms(2)] patch_row [OF assms(2,4) that])
    also have "\<dots> = elem4 x b c h w"
      by simp
    finally show ?thesis .
  qed
  have "shape3 ?ps = (B, (H div p) * (W div p), C * p * p)" by simp
  moreover have "shape4 ?y = shape4 x" using assms(1) by simp
  moreover have "\<forall>b<B. \<forall>c<C. \<forall>h<H. \<forall>w<W. elem4 ?y b c h w = elem4 x b c h w"
    using c by blast
  ultimately show ?thesis
    using a b by blast
qed

theorem unpatchify_patchify_witness:
  "shape4 \<lparr>shape4 = (1, 4, 32, 32), elem4 = (\<lambda>b c h w. c * 1024 + h * 32 + w)\<rparr> = (1, 4, 32, 32)
   \<and> (0::nat) < 2 \<and> (2::nat) dvd 32
   \<and> (\<exists>ps y. patchify \<lparr>shape4 = (1, 4, 32, 32), elem4 = (\<lambda>b c h w. c * 1024 + h * 32 + w)\<rparr> 2
                = Inr ps
          \<and> shape3 ps = (1, 256, 16)
          \<and> unpatchify ps 2 1 4 32 32 = Inr y
          \<and> shape4 y = (1, 4, 32, 32)
          \<and> elem4 y 0 3 31 30 = 4094)"
proof -
  let ?x = "\<lparr>shape4 = (1, 4, 32, 32), elem4 = (\<lambda>b c h w. c * 1024 + h * 32 + w)\<rparr>
              :: nat tensor4"
  have s: "shape4 ?x = (1, 4, 32, 32)" by simp
  have p: "(0::nat) < 2" and d: "(2::nat) dvd 32" by simp_all
  from unpatchify_patchify [OF s p d d]
  obtain ps y where a: "patchify ?x 2 = Inr ps"
    and b: "shape3 ps = (1, (32 div 2) * (32 div 2), 4 * 2 * 2)"
    and c: "unpatchify ps 2 1 4 32 32 = Inr y"
    and e: "shape4 y = shape4 ?x"
    and f: "\<forall>b<1. \<forall>c<4. \<forall>h<32. \<forall>w<32. elem4 y b c h w = elem4 ?x b c h w"
    by blast
  from b have b': "shape3 ps = (1, 256, 16)" by simp
  from e have e': "shape4 y = (1, 4, 32, 32)" by simp
  from f have "elem4 y 0 3 31 30 = elem4 ?x 0 3 31 30" by simp
  then have g: "elem4 y 0 3 31 30 = 4094" by simp
  from a b' c e' g have "\<exists>ps y. patchify ?x 2 = Inr ps \<and> shape3 ps = (1, 256, 16)
          \<and> unpatchify ps 2 1 4 32 32 = Inr y \<and> shape4 y = (1, 4, 32, 32)
          \<and> elem4 y 0 3 31 30 = 4094"
    by blast
  with s p d show ?thesis by blast
qed

end
